theory Spec2Isabelle
  imports Main "HOL-Library.Word"
begin

section \<open>Errors\<close>

text \<open>
  Go error values. \<open>New\<close> is \<^verbatim>\<open>errors.New\<close>; \<open>Errorf\<close> is
  \<^verbatim>\<open>fmt.Errorf("<context>: %w", err)\<close>, holding the context string and the wrapped
  error. The remaining constructors are errors of library calls: the two errors of
  \<^verbatim>\<open>strconv\<close>, \<^verbatim>\<open>CorruptInputError\<close> of \<^verbatim>\<open>encoding/base64\<close> (its position is not
  kept), the two context errors, a run-time panic, and an error of the transport or of a
  decoder, named by a string. A Go \<^verbatim>\<open>error\<close> result is an \<open>error option\<close> (\<open>None\<close> is
  \<^verbatim>\<open>nil\<close>); a \<^verbatim>\<open>(value, error)\<close> result is \<open>error + value\<close>, the value returned beside
  a non-nil error (\<open>-1\<close>, \<^verbatim>\<open>nil\<close>) being dropped.
\<close>

datatype error =
    New string
  | Errorf string error
  | ErrSyntax
  | ErrRange
  | CorruptInputError
  | Canceled
  | DeadlineExceeded
  | Panic string
  | External string

text \<open>\<^verbatim>\<open>err.Error()\<close>, the text that is printed for an error.\<close>

fun Error :: "error \<Rightarrow> string" where
  "Error (New msg) = msg"
| "Error (Errorf msg err) = msg @ '': '' @ Error err"
| "Error ErrSyntax = ''invalid syntax''"
| "Error ErrRange = ''value out of range''"
| "Error CorruptInputError = ''illegal base64 data''"
| "Error Canceled = ''context canceled''"
| "Error DeadlineExceeded = ''context deadline exceeded''"
| "Error (Panic msg) = ''panic: '' @ msg"
| "Error (External msg) = msg"

section \<open>Go integers and text\<close>

text \<open>
  Integer division and remainder of Go truncate towards zero. Tile indices and tree
  sizes are \<^verbatim>\<open>int64\<close>: they are integers here, and \<open>wrap64\<close> is written wherever the
  code adds or subtracts them, so that an overflow wraps around as it does in Go.
  Division and remainder by a positive constant cannot overflow.
\<close>

definition quot :: "int \<Rightarrow> int \<Rightarrow> int" where
  "quot a b = sgn a * sgn b * (\<bar>a\<bar> div \<bar>b\<bar>)"

definition rem :: "int \<Rightarrow> int \<Rightarrow> int" where
  "rem a b = a - b * quot a b"

definition wrap64 :: "int \<Rightarrow> int" where
  "wrap64 x = (x + 2 ^ 63) mod 2 ^ 64 - 2 ^ 63"

text \<open>
  A byte sequence (\<^verbatim>\<open>[]byte\<close>, and a Go \<^verbatim>\<open>string\<close>, which is one too) is a list of
  8-bit characters.
\<close>

type_synonym bytes = string

definition LF :: char where
  "LF = CHR 0x0A"

definition CR :: char where
  "CR = CHR 0x0D"

definition digit_char :: "nat \<Rightarrow> char" where
  "digit_char d = char_of (48 + d)"

definition digit_val :: "char \<Rightarrow> nat option" where
  "digit_val c =
     (let n = of_char c :: nat in if 48 \<le> n \<and> n \<le> 57 then Some (n - 48) else None)"

text \<open>The decimal digits of a natural number, most significant first, no leading zero.\<close>

fun dec_digits :: "nat \<Rightarrow> string" where
  "dec_digits n =
     (if n < 10 then [digit_char n] else dec_digits (n div 10) @ [digit_char (n mod 10)])"

declare dec_digits.simps [simp del]

text \<open>
  \<^verbatim>\<open>fmt.Sprintf("%03d", n)\<close>: the sign of a negative number, then the digits padded
  with zeros to a width of three characters, the sign counted in the width.
\<close>

definition Sprintf_03d :: "int \<Rightarrow> string" where
  "Sprintf_03d n =
     (let digits = dec_digits (nat \<bar>n\<bar>);
          sign = (if n < 0 then ''-'' else '''')
      in sign @ replicate (3 - length sign - length digits) (CHR ''0'') @ digits)"

text \<open>\<^verbatim>\<open>strconv.FormatInt(i, 10)\<close>.\<close>

definition FormatInt :: "int \<Rightarrow> string" where
  "FormatInt i = (if i < 0 then CHR ''-'' # dec_digits (nat (- i)) else dec_digits (nat i))"

text \<open>
  \<^verbatim>\<open>strconv.ParseUint(s, 10, 64)\<close>. The loop reads the bytes from the left; a byte
  that is no decimal digit ends it with a syntax error (a letter is a digit of a larger
  base, refused as one not below the base). \<open>n\<close> is a \<^verbatim>\<open>uint64\<close>: the product and the
  sum wrap around, and the code detects it. The result is the pair the function returns,
  the value beside an error included, since \<^verbatim>\<open>ParseInt\<close> reads it.
\<close>

definition maxUint64 :: nat where
  "maxUint64 = 2 ^ 64 - 1"

fun ParseUint_loop :: "nat \<Rightarrow> string \<Rightarrow> nat \<times> error option" where
  "ParseUint_loop n [] = (n, None)"
| "ParseUint_loop n (c # cs) =
     (case digit_val c of
        None \<Rightarrow> (0, Some ErrSyntax)
      | Some d \<Rightarrow>
          if n \<ge> maxUint64 div 10 + 1 then (maxUint64, Some ErrRange)
          else
            let n10 = (n * 10) mod 2 ^ 64;
                n1 = (n10 + d) mod 2 ^ 64
            in if n1 < n10 \<or> n1 > maxUint64 then (maxUint64, Some ErrRange)
               else ParseUint_loop n1 cs)"

definition ParseUint :: "string \<Rightarrow> nat \<times> error option" where
  "ParseUint s = (if s = [] then (0, Some ErrSyntax) else ParseUint_loop 0 s)"

text \<open>
  \<^verbatim>\<open>strconv.ParseInt(s, 10, 64)\<close>: an optional sign, then \<^verbatim>\<open>ParseUint\<close>; a syntax
  error is returned as it is, and the value (the largest one after a range error) is
  checked against \<open>2 ^ 63\<close>. The conversion to \<^verbatim>\<open>int64\<close> and the negation wrap.
\<close>

definition ParseInt :: "string \<Rightarrow> error + int" where
  "ParseInt s0 =
     (if s0 = [] then Inl ErrSyntax
      else
        let neg = (hd s0 = CHR ''-'');
            s = (if hd s0 = CHR ''+'' \<or> hd s0 = CHR ''-'' then tl s0 else s0);
            (un, err) = ParseUint s;
            cutoff = 2 ^ 63
        in if err \<noteq> None \<and> err \<noteq> Some ErrRange then Inl ErrSyntax
           else if \<not> neg \<and> un \<ge> cutoff then Inl ErrRange
           else if neg \<and> un > cutoff then Inl ErrRange
           else
             let n = wrap64 (int un)
             in Inr (if neg then wrap64 (- n) else n))"

text \<open>\<^verbatim>\<open>strings.Count(text, "\n")\<close> for a separator of one byte.\<close>

definition Count :: "string \<Rightarrow> char \<Rightarrow> nat" where
  "Count s sep = length (filter (\<lambda>c. c = sep) s)"

text \<open>
  \<^verbatim>\<open>strings.SplitN(s, sep, n)\<close> for a separator of one byte and \<open>n \<ge> 0\<close>: at most \<open>n\<close>
  substrings, the last one the unsplit rest.
\<close>

fun SplitN :: "string \<Rightarrow> char \<Rightarrow> nat \<Rightarrow> string list" where
  "SplitN s sep 0 = []"
| "SplitN s sep (Suc 0) = [s]"
| "SplitN s sep (Suc (Suc n)) =
     (if sep \<in> set s
      then takeWhile (\<lambda>c. c \<noteq> sep) s # SplitN (tl (dropWhile (\<lambda>c. c \<noteq> sep) s)) sep (Suc n)
      else [s])"

text \<open>
  \<^verbatim>\<open>base64.StdEncoding.DecodeString\<close>: the standard alphabet, padding with \<open>=\<close>, not
  strict. The decoder reads four characters at a time (a quantum), skipping carriage
  returns and line feeds wherever they stand. The input may end only between quanta;
  padding may fill the third and fourth place of the last quantum and nothing but
  line ends may follow it. \<open>q\<close> holds the values read for the current quantum.
\<close>

definition alphabet :: string where
  "alphabet = ''ABCDEFGHIJKLMNOPQRSTUVWXYZabcdefghijklmnopqrstuvwxyz0123456789+/''"

fun index_of :: "char \<Rightarrow> string \<Rightarrow> nat option" where
  "index_of c [] = None"
| "index_of c (x # xs) = (if c = x then Some 0 else map_option Suc (index_of c xs))"

definition decodeMap :: "char \<Rightarrow> nat option" where
  "decodeMap c = index_of c alphabet"

definition skip_newlines :: "string \<Rightarrow> string" where
  "skip_newlines s = dropWhile (\<lambda>c. c = LF \<or> c = CR) s"

text \<open>The bytes of a quantum of 2, 3 or 4 values: 1, 2 or 3 bytes.\<close>

definition quantum_bytes :: "nat list \<Rightarrow> bytes" where
  "quantum_bytes q =
     (let v = (\<lambda>i. if i < length q then q ! i else 0);
          val = v 0 * 2 ^ 18 + v 1 * 2 ^ 12 + v 2 * 2 ^ 6 + v 3
      in map char_of (take (length q - 1) [val div 2 ^ 16, val div 2 ^ 8, val]))"

fun decode :: "nat list \<Rightarrow> string \<Rightarrow> error + bytes" where
  "decode q [] = (if q = [] then Inr [] else Inl CorruptInputError)"
| "decode q (c # cs) =
     (case decodeMap c of
        Some v \<Rightarrow>
          if length q = 3
          then (case decode [] cs of
                  Inl err \<Rightarrow> Inl err
                | Inr rest \<Rightarrow> Inr (quantum_bytes (q @ [v]) @ rest))
          else decode (q @ [v]) cs
      | None \<Rightarrow>
          if c = LF \<or> c = CR then decode q cs
          else if c \<noteq> CHR ''='' then Inl CorruptInputError
          else if length q < 2 then Inl CorruptInputError
          else if length q = 2 then
            (case skip_newlines cs of
               [] \<Rightarrow> Inl CorruptInputError
             | d # ds \<Rightarrow>
                 if d \<noteq> CHR ''='' then Inl CorruptInputError
                 else if skip_newlines ds \<noteq> [] then Inl CorruptInputError
                 else Inr (quantum_bytes q))
          else if skip_newlines cs \<noteq> [] then Inl CorruptInputError
          else Inr (quantum_bytes q))"

definition DecodeString :: "string \<Rightarrow> error + bytes" where
  "DecodeString s = decode [] s"

section \<open>Tile paths and checkpoints (staticctapi/log.go)\<close>

text \<open>The loop of \<^verbatim>\<open>TilePathFromIndex\<close>; it ends because the remainder shrinks.\<close>

function TilePath_loop :: "int \<Rightarrow> string \<Rightarrow> string" where
  "TilePath_loop remainder path =
     (if remainder \<noteq> 0
      then TilePath_loop (quot remainder 1000)
             (''x'' @ Sprintf_03d (rem remainder 1000) @ ''/'' @ path)
      else path)"
  by pat_completeness auto
termination
proof (relation "measure (\<lambda>(r, p). nat \<bar>r\<bar>)")
  show "wf (measure (\<lambda>(r, p). nat \<bar>r\<bar>))" by simp
next
  fix remainder :: int and path :: string
  assume "remainder \<noteq> 0"
  then have "\<bar>remainder\<bar> div 1000 < \<bar>remainder\<bar>"
    by (simp add: int_div_less_self)
  then show "((quot remainder 1000, ''x'' @ Sprintf_03d (rem remainder 1000) @ ''/'' @ path),
      remainder, path) \<in> measure (\<lambda>(r, p). nat \<bar>r\<bar>)"
    by (simp add: quot_def abs_mult abs_sgn_eq)
qed

declare TilePath_loop.simps [simp del]

definition TilePathFromIndex :: "int \<Rightarrow> string" where
  "TilePathFromIndex tileIndex =
     TilePath_loop (quot tileIndex 1000) (Sprintf_03d (rem tileIndex 1000))"

text \<open>
  \<^verbatim>\<open>TreeSizeFromCheckpoint\<close>. \<^verbatim>\<open>1e6\<close> is the constant 1000000. With three line feeds
  in the text \<^verbatim>\<open>SplitN\<close> returns four lines; reading \<^verbatim>\<open>lines[1]\<close> or \<^verbatim>\<open>lines[2]\<close>
  of a shorter slice would panic.
\<close>

definition TreeSizeFromCheckpoint :: "string \<Rightarrow> error + int" where
  "TreeSizeFromCheckpoint text =
     (if Count text LF < 3 \<or> length text > 1000000
      then Inl (New ''malformed checkpoint: incorrect size'')
      else
        (case SplitN text LF 4 of
           l0 # l1 # l2 # ls \<Rightarrow>
             (case ParseInt l1 of
                Inl err \<Rightarrow> Inl (New ''malformed checkpoint: invalid tree size'')
              | Inr treeSize \<Rightarrow>
                  if treeSize < 0 \<or> l1 \<noteq> FormatInt treeSize
                  then Inl (New ''malformed checkpoint: invalid tree size'')
                  else
                    (case DecodeString l2 of
                       Inl err \<Rightarrow> Inl (New ''malformed checkpoint: invalid root hash'')
                     | Inr hash \<Rightarrow>
                         if length hash \<noteq> 32
                         then Inl (New ''malformed checkpoint: invalid root hash'')
                         else Inr treeSize))
         | _ \<Rightarrow> Inl (Panic ''index out of range'')))"


section \<open>Retry policy (staticctapi/retry.go)\<close>

text \<open>
  \<^verbatim>\<open>MaxAttempts\<close> is a Go \<^verbatim>\<open>int\<close>, the two durations are \<^verbatim>\<open>time.Duration\<close>
  (\<^verbatim>\<open>int64\<close> nanoseconds). \<^verbatim>\<open>Validate\<close> only compares them, so they are integers here.
\<close>

record Retry =
  MaxAttempts :: int
  MaxInterval :: int
  Timeout :: int

definition Second :: int where
  "Second = 1000000000"

definition DefaultTileRetry :: Retry where
  "DefaultTileRetry = \<lparr>MaxAttempts = 5, MaxInterval = 1 * Second, Timeout = 5 * Second\<rparr>"

definition Validate :: "Retry \<Rightarrow> error option" where
  "Validate r =
     (if MaxAttempts r < 1 then Some (New ''max attempts less than one'')
      else if MaxInterval r \<le> 0 then Some (New ''max interval less than or equal to zero'')
      else if Timeout r \<le> 0 then Some (New ''timeout less than or equal to zero'')
      else if Timeout r \<le> MaxInterval r then
        Some (New ''timeout less than or equal to max interval'')
      else None)"

text \<open>
  \<^verbatim>\<open>createBackoff\<close>: the exponential backoff of the backoff library with its maximal
  elapsed time and maximal interval set, wrapped in \<^verbatim>\<open>WithMaxRetries\<close>. The library's
  value is kept as the three parameters the code sets. \<^verbatim>\<open>uint64(r.MaxAttempts)-1\<close> is
  computed on 64-bit unsigned integers.
\<close>

record BackOff =
  bo_MaxElapsedTime :: int
  bo_MaxInterval :: int
  bo_MaxRetries :: "64 word"

definition createBackoff :: "Retry \<Rightarrow> BackOff" where
  "createBackoff r =
     \<lparr>bo_MaxElapsedTime = Timeout r, bo_MaxInterval = MaxInterval r,
      bo_MaxRetries = word_of_int (MaxAttempts r) - 1\<rparr>"


section \<open>The tiled log client (staticctapi/log.go)\<close>

text \<open>
  An instant (\<^verbatim>\<open>time.Time\<close>) is its number of nanoseconds since the Unix epoch;
  \<^verbatim>\<open>Before\<close> and \<^verbatim>\<open>After\<close> compare instants. The timestamp of a log entry is an
  \<^verbatim>\<open>int64\<close> of milliseconds.
\<close>

type_synonym Time = int

definition UnixMilli :: "int \<Rightarrow> Time" where
  "UnixMilli msec = msec * 1000000"

definition Before :: "Time \<Rightarrow> Time \<Rightarrow> bool" where
  "Before t u = (t < u)"

definition After :: "Time \<Rightarrow> Time \<Rightarrow> bool" where
  "After t u = (t > u)"

text \<open>The fields of \<^verbatim>\<open>sunlight.LogEntry\<close> that the repository reads.\<close>

record LogEntry =
  Timestamp :: int
  IsPrecert :: bool
  Certificate :: bytes
  PreCertificate :: bytes

text \<open>
  A context is named by a number; whether it is cancelled is known to the world the
  requests are made in. A request holds what the code sets; a response holds what the
  code reads: the status, the \<^verbatim>\<open>Content-Encoding\<close> header, and what \<^verbatim>\<open>io.ReadAll\<close>
  gives for the body.
\<close>

type_synonym Context = nat

record request =
  req_ctx :: Context
  req_method :: string
  req_url :: string
  req_header :: "(string \<times> string) list"

record response =
  StatusCode :: int
  Status :: string
  ContentEncoding :: string
  Body :: "error + bytes"

datatype gzip_result = NewReaderError error | ReadAllError error | Decompressed bytes

text \<open>
  What the client calls outside the repository. \<open>'w\<close> is the state of the world (the
  server, the network, the clock, the contexts): every HTTP exchange reads and changes
  it. \<^verbatim>\<open>JoinPath\<close> and \<^verbatim>\<open>NewRequestWithContext\<close> (its error only) are those of
  \<^verbatim>\<open>net/url\<close> and \<^verbatim>\<open>net/http\<close>, \<open>Do\<close> is the HTTP client, \<open>gunzip\<close> is
  \<^verbatim>\<open>gzip.NewReader\<close> followed by \<^verbatim>\<open>io.ReadAll\<close>, \<^verbatim>\<open>ReadTileLeaf\<close> is the leaf
  decoder of the sunlight library, and \<^verbatim>\<open>RetryWithData\<close> is the retry loop of the
  backoff library, given the operation, the backoff and the context.
\<close>

record 'w env =
  JoinPath :: "string \<Rightarrow> string \<Rightarrow> string"
  NewRequestWithContext :: "Context \<Rightarrow> string \<Rightarrow> string \<Rightarrow> error option"
  Do :: "request \<Rightarrow> 'w \<Rightarrow> (error + response) \<times> 'w"
  gunzip :: "error + bytes \<Rightarrow> gzip_result"
  ReadTileLeaf :: "bytes \<Rightarrow> error + (LogEntry \<times> bytes)"
  RetryWithData ::
    "('w \<Rightarrow> (error + LogEntry list) \<times> 'w) \<Rightarrow> BackOff \<Rightarrow> Context \<Rightarrow> 'w
      \<Rightarrow> (error + LogEntry list) \<times> 'w"

record Log =
  MetricsEndpoint :: string
  TileRetry :: Retry

text \<open>
  The loop of \<^verbatim>\<open>GetTileEntries\<close>: \<open>n\<close> leaves are read one after the other, each
  from what the one before left; what is left after the last one is not looked at.
\<close>

fun read_entries :: "(bytes \<Rightarrow> error + (LogEntry \<times> bytes)) \<Rightarrow> nat \<Rightarrow> bytes \<Rightarrow> error + LogEntry list" where
  "read_entries rd 0 tileData = Inr []"
| "read_entries rd (Suc n) tileData =
     (case rd tileData of
        Inl err \<Rightarrow> Inl (Errorf ''reading entry from tile'' err)
      | Inr (entry, rest) \<Rightarrow>
          (case read_entries rd n rest of
             Inl err \<Rightarrow> Inl err
           | Inr entries \<Rightarrow> Inr (entry # entries)))"

text \<open>The body of a tile: decompressed when the response says it is gzip.\<close>

definition tile_body :: "'w env \<Rightarrow> response \<Rightarrow> error + bytes" where
  "tile_body env response =
     (if take 4 (ContentEncoding response) = ''gzip''
      then (case gunzip env (Body response) of
              NewReaderError err \<Rightarrow> Inl (Errorf ''creating gzip reader'' err)
            | ReadAllError err \<Rightarrow> Inl (Errorf ''reading data from gzipped response body'' err)
            | Decompressed tileData \<Rightarrow> Inr tileData)
      else (case Body response of
              Inl err \<Rightarrow> Inl (Errorf ''reading response body'' err)
            | Inr tileData \<Rightarrow> Inr tileData))"

text \<open>
  \<^verbatim>\<open>GetTileEntries\<close>, in its two parts: the request for the tile and the reading of
  the response body (\<open>fetch_tile_data\<close>), then the loop over 256 leaves.
\<close>

definition fetch_tile_data ::
  "'w env \<Rightarrow> Log \<Rightarrow> Context \<Rightarrow> int \<Rightarrow> 'w \<Rightarrow> (error + bytes) \<times> 'w" where
  "fetch_tile_data env l ctx tileIndex w =
     (let tilePath = ''/tile/data/'' @ TilePathFromIndex tileIndex;
          tileUrl = JoinPath env (MetricsEndpoint l) tilePath
      in case NewRequestWithContext env ctx ''GET'' tileUrl of
           Some err \<Rightarrow> (Inl (Errorf ''building http request'' err), w)
         | None \<Rightarrow>
             (case Do env \<lparr>req_ctx = ctx, req_method = ''GET'', req_url = tileUrl,
                     req_header = [(''Accept-Encoding'', ''gzip, identity'')]\<rparr> w of
                (Inl err, w') \<Rightarrow> (Inl (Errorf ''requesting tile'' err), w')
              | (Inr response, w') \<Rightarrow>
                  if StatusCode response \<noteq> 200
                  then (Inl (New (''unexpected response status: '' @ Status response)), w')
                  else (tile_body env response, w')))"

definition GetTileEntries ::
  "'w env \<Rightarrow> Log \<Rightarrow> Context \<Rightarrow> int \<Rightarrow> 'w \<Rightarrow> (error + LogEntry list) \<times> 'w" where
  "GetTileEntries env l ctx tileIndex w =
     (case fetch_tile_data env l ctx tileIndex w of
        (Inl err, w') \<Rightarrow> (Inl err, w')
      | (Inr tileData, w') \<Rightarrow> (read_entries (ReadTileLeaf env) 256 tileData, w'))"

definition GetTileEntriesWithBackoff ::
  "'w env \<Rightarrow> Log \<Rightarrow> Context \<Rightarrow> int \<Rightarrow> 'w \<Rightarrow> (error + LogEntry list) \<times> 'w" where
  "GetTileEntriesWithBackoff env l ctx tileIndex w =
     (let bo = createBackoff DefaultTileRetry;
          bo = (if Validate (TileRetry l) = None then createBackoff (TileRetry l) else bo);
          operation = GetTileEntries env l ctx tileIndex
      in RetryWithData env operation bo ctx w)"

definition GetLastFullTileIndex ::
  "'w env \<Rightarrow> Log \<Rightarrow> Context \<Rightarrow> 'w \<Rightarrow> (error + int) \<times> 'w" where
  "GetLastFullTileIndex env l ctx w =
     (let checkpointUrl = JoinPath env (MetricsEndpoint l) ''/checkpoint''
      in case NewRequestWithContext env ctx ''GET'' checkpointUrl of
           Some err \<Rightarrow> (Inl (Errorf ''building http request'' err), w)
         | None \<Rightarrow>
             (case Do env \<lparr>req_ctx = ctx, req_method = ''GET'', req_url = checkpointUrl,
                     req_header = []\<rparr> w of
                (Inl err, w') \<Rightarrow> (Inl (Errorf ''requesting checkpoint'' err), w')
              | (Inr response, w') \<Rightarrow>
                  if StatusCode response \<noteq> 200
                  then (Inl (New (''unexpected response status: '' @ Status response)), w')
                  else (case Body response of
                          Inl err \<Rightarrow> (Inl (Errorf ''reading response body'' err), w')
                        | Inr checkpointData \<Rightarrow>
                            (case TreeSizeFromCheckpoint checkpointData of
                               Inl err \<Rightarrow>
                                 (Inl (Errorf ''parsing tree size from checkpoint'' err), w')
                             | Inr treeSize \<Rightarrow> (Inr (quot treeSize 256), w')))))"

text \<open>
  The loop of \<^verbatim>\<open>GetTileIndexFromTime\<close>. The indices are \<^verbatim>\<open>int64\<close>: the sum of the
  two bounds and the steps past the pivot wrap around. The loop need not end when the
  sum overflows, so the function is partial: \<open>None\<close> is a search that never returns.
  A tile that was fetched has 256 entries, so its entries 0 and 255 exist.
\<close>

partial_function (option) GetTileIndexFromTime_loop ::
  "'w env \<Rightarrow> Log \<Rightarrow> Context \<Rightarrow> Time \<Rightarrow> int \<Rightarrow> int \<Rightarrow> 'w \<Rightarrow> ((error + int) \<times> 'w) option" where
  "GetTileIndexFromTime_loop env l ctx t startIndex endIndex w =
     (if startIndex \<le> endIndex
      then
        (let pivotIndex = quot (wrap64 (startIndex + endIndex)) 2
         in case GetTileEntries env l ctx pivotIndex w of
              (Inl err, w') \<Rightarrow> Some (Inl (Errorf ''getting entries for tile'' err), w')
            | (Inr tileEntries, w') \<Rightarrow>
                if Before t (UnixMilli (Timestamp (tileEntries ! 0)))
                then GetTileIndexFromTime_loop env l ctx t startIndex (wrap64 (pivotIndex - 1)) w'
                else if After t (UnixMilli (Timestamp (tileEntries ! 255)))
                then GetTileIndexFromTime_loop env l ctx t (wrap64 (pivotIndex + 1)) endIndex w'
                else Some (Inr pivotIndex, w'))
      else Some (Inl (New ''timestamp doesn't fall within the time bounds of the log entries''), w))"

definition GetTileIndexFromTime ::
  "'w env \<Rightarrow> Log \<Rightarrow> Context \<Rightarrow> Time \<Rightarrow> int \<Rightarrow> int \<Rightarrow> 'w \<Rightarrow> ((error + int) \<times> 'w) option" where
  "GetTileIndexFromTime env l ctx t startTile endTile w =
     (if startTile < 0 then Some (Inl (New ''negative startTile''), w)
      else GetTileIndexFromTime_loop env l ctx t startTile endTile w)"

definition GetBoundingTilesFromTimes ::
  "'w env \<Rightarrow> Log \<Rightarrow> Context \<Rightarrow> Time \<Rightarrow> Time \<Rightarrow> 'w \<Rightarrow> ((error + int \<times> int) \<times> 'w) option" where
  "GetBoundingTilesFromTimes env l ctx startTime endTime w =
     (if \<not> Before startTime endTime
      then Some (Inl (New ''start time is not before end time''), w)
      else
        (case GetLastFullTileIndex env l ctx w of
           (Inl err, w1) \<Rightarrow> Some (Inl (Errorf ''getting index of current final tile'' err), w1)
         | (Inr lastTile, w1) \<Rightarrow>
             (case GetTileIndexFromTime env l ctx startTime 0 lastTile w1 of
                None \<Rightarrow> None
              | Some (Inl err, w2) \<Rightarrow> Some (Inl (Errorf ''getting index of start tile'' err), w2)
              | Some (Inr startIndex, w2) \<Rightarrow>
                  (case GetTileIndexFromTime env l ctx endTime startIndex lastTile w2 of
                     None \<Rightarrow> None
                   | Some (Inl err, w3) \<Rightarrow>
                       Some (Inl (Errorf ''getting index of end tile'' err), w3)
                   | Some (Inr endIndex, w3) \<Rightarrow> Some (Inr (startIndex, endIndex), w3)))))"

section \<open>The tiled log data source (staticctapi/log.go)\<close>

record DataSource =
  Log :: "Log option"
  IncludePrecertificates :: bool
  IncludeCertificates :: bool
  StartTimeInclusive :: Time
  EndTimeInclusive :: Time
  MaxConnections :: int

text \<open>
  The number of workers, which is also the size of the buffer of the work channel.
\<close>

definition concurrency :: "DataSource \<Rightarrow> int" where
  "concurrency b = (if MaxConnections b > 1 then MaxConnections b else 1)"

text \<open>What a worker sends on \<^verbatim>\<open>certs\<close> for the entries of one tile.\<close>

fun send_entries :: "DataSource \<Rightarrow> LogEntry list \<Rightarrow> bytes list" where
  "send_entries b [] = []"
| "send_entries b (entry # entries) =
     (if IsPrecert entry
      then (if IncludePrecertificates b then [PreCertificate entry] else [])
      else (if IncludeCertificates b then [Certificate entry] else []))
     @ send_entries b entries"

text \<open>
  The workers, for the tile indices of the work channel: a tile that cannot be fetched
  is written to the diagnostic stream and skipped. The result is what was sent on
  \<^verbatim>\<open>certs\<close>, what was written, and the world after the last request.
\<close>

fun workers ::
  "'w env \<Rightarrow> DataSource \<Rightarrow> Log \<Rightarrow> Context \<Rightarrow> int list \<Rightarrow> 'w \<Rightarrow> bytes list \<times> string list \<times> 'w" where
  "workers env b l ctx [] w = ([], [], w)"
| "workers env b l ctx (tileIndex # work) w =
     (case GetTileEntriesWithBackoff env l ctx tileIndex w of
        (Inl err, w') \<Rightarrow>
          (case workers env b l ctx work w' of
             (certs, lines, w'') \<Rightarrow> (certs, (''getting entries for tile: '' @ Error err) # lines, w''))
      | (Inr entries, w') \<Rightarrow>
          (case workers env b l ctx work w' of
             (certs, lines, w'') \<Rightarrow> (send_entries b entries @ certs, lines, w'')))"

text \<open>
  \<^verbatim>\<open>DataSource.Source\<close>. The result is the returned error, what was sent on \<^verbatim>\<open>certs\<close>,
  what was written to the diagnostic stream, and the world. The goroutines are run in
  one schedule: the tiles from the start index to the end index are fetched one after
  the other, in order, and every send on \<^verbatim>\<open>certs\<close> is received. With more than one
  worker (\<open>concurrency\<close>) the requests and the sends of different tiles interleave; the
  statement that returns is the same: after \<^verbatim>\<open>wg.Wait()\<close> the function returns
  \<^verbatim>\<open>nil\<close>.
\<close>

definition Source ::
  "'w env \<Rightarrow> DataSource \<Rightarrow> Context \<Rightarrow> 'w \<Rightarrow> (error option \<times> bytes list \<times> string list \<times> 'w) option" where
  "Source env b ctx w =
     (case Log b of
        None \<Rightarrow> Some (Some (New ''nil log''), [], [], w)
      | Some l \<Rightarrow>
          if \<not> (IncludeCertificates b \<or> IncludePrecertificates b)
          then Some (Some (New ''neither precertficates nor certificates are selected''), [], [], w)
          else
            (case GetBoundingTilesFromTimes env l ctx (StartTimeInclusive b) (EndTimeInclusive b) w of
               None \<Rightarrow> None
             | Some (Inl err, w1) \<Rightarrow> Some (Some (Errorf ''determining search bounds'' err), [], [], w1)
             | Some (Inr (startIndex, endIndex), w1) \<Rightarrow>
                 (case workers env b l ctx [startIndex..endIndex] w1 of
                    (certs, lines, w2) \<Rightarrow>
                      Some (None, certs,
                        (''determined search bounds, start tile: '' @ FormatInt startIndex @
                         '' end tile: '' @ FormatInt endIndex) # lines, w2))))"


section \<open>Match cachers (unnamed/part_000)\<close>

text \<open>
  The fields of \<^verbatim>\<open>x509.Certificate\<close> the search reads, and what the search calls
  outside the repository: the certificate parser, SHA-256, and the fused test and
  insertion of the Bloom filter library, on a filter state \<open>'f\<close>.
\<close>

record x509_Certificate =
  Raw :: bytes
  Issuer :: string
  Subject :: string

record 'f crypto =
  ParseCertificate :: "bytes \<Rightarrow> error + x509_Certificate"
  Sum256 :: "bytes \<Rightarrow> bytes"
  TestOrAdd :: "bytes \<Rightarrow> 'f \<Rightarrow> bool \<times> 'f"

text \<open>
  The three cachers. The map of a \<^verbatim>\<open>Sha256MapCacher\<close> is the one
  \<^verbatim>\<open>NewSha256MapCacher\<close> makes; a key that is not in a Go map reads as \<^verbatim>\<open>false\<close>.
  \<^verbatim>\<open>Cache\<close> returns whether the certificate was present, and the cacher after the call.
\<close>

datatype 'f Cacher = NopCacher | BloomCacher 'f | Sha256MapCacher "bytes \<rightharpoonup> bool"

definition NewSha256MapCacher :: "'f Cacher" where
  "NewSha256MapCacher = Sha256MapCacher Map.empty"

fun Cache :: "'f crypto \<Rightarrow> 'f Cacher \<Rightarrow> x509_Certificate \<Rightarrow> bool \<times> 'f Cacher" where
  "Cache lib NopCacher cert = (False, NopCacher)"
| "Cache lib (BloomCacher bloom) cert =
     (case TestOrAdd lib (Raw cert) bloom of
        (present, bloom') \<Rightarrow> (present, BloomCacher bloom'))"
| "Cache lib (Sha256MapCacher certs) cert =
     (let hash = Sum256 lib (Raw cert);
          present = (case certs hash of None \<Rightarrow> False | Some v \<Rightarrow> v)
      in (present, Sha256MapCacher (certs(hash \<mapsto> True))))"

section \<open>The search engine (search.go)\<close>

datatype ErrorBehavior = ErrorBehaviorCancel | ErrorBehaviorContinue

text \<open>
  A function field that may be \<^verbatim>\<open>nil\<close> is an option. The callback returns nothing:
  what the model keeps of it is the list of the certificates it was called with. The
  data sources are values of any type \<open>'s\<close>; the engine only counts them and waits for
  them.
\<close>

record ('f, 's) Search =
  DERFilter :: "(bytes \<Rightarrow> bool) option"
  Filter :: "(x509_Certificate \<Rightarrow> bool) option"
  MatchCallback :: "(x509_Certificate \<Rightarrow> unit) option"
  DataSources :: "'s list"
  MatchCacher :: "'f Cacher option"
  DataSourceErrorBehavior :: ErrorBehavior

definition ValidateParameters :: "('f, 's) Search \<Rightarrow> error option" where
  "ValidateParameters s =
     (if DERFilter s = None \<and> Filter s = None then Some (New ''nil filter functions'')
      else if MatchCallback s = None then Some (New ''nil match callback function'')
      else if length (DataSources s) = 0 then Some (New ''no data sources'')
      else None)"

text \<open>
  The state of a running \<^verbatim>\<open>Execute\<close>: the cacher, the calls of \<^verbatim>\<open>MatchCallback\<close> so
  far, the lines written to the diagnostic stream, the cause the derived context was
  cancelled with (\<open>None\<close> while it is not cancelled), the counter of the wait group, the
  content of the channel \<^verbatim>\<open>certs\<close> and whether it is closed, the byte strings the
  consumer has received, and what \<^verbatim>\<open>Execute\<close> returned (\<open>None\<close> while it runs,
  \<open>Some None\<close> for \<^verbatim>\<open>nil\<close>).
\<close>

record 'f state =
  matches :: "'f Cacher"
  callbacks :: "x509_Certificate list"
  stderr :: "string list"
  cause :: "error option"
  running :: nat
  certs :: "bytes list"
  closed :: bool
  received :: "bytes list"
  returned :: "error option option"

text \<open>The filters in force: a \<^verbatim>\<open>nil\<close> filter matches everything.\<close>

definition derFilter :: "('f, 's) Search \<Rightarrow> bytes \<Rightarrow> bool" where
  "derFilter s = (case DERFilter s of None \<Rightarrow> (\<lambda>_. True) | Some f \<Rightarrow> f)"

definition filter_in_force :: "('f, 's) Search \<Rightarrow> x509_Certificate \<Rightarrow> bool" where
  "filter_in_force s = (case Filter s of None \<Rightarrow> (\<lambda>_. True) | Some f \<Rightarrow> f)"

text \<open>
  The start of \<^verbatim>\<open>Execute\<close>, up to the loop: the parameters are validated, the
  context is checked (\<open>ctx_err\<close> is its \<^verbatim>\<open>Err()\<close>), the cacher defaults to a
  \<^verbatim>\<open>NopCacher\<close>, one goroutine per data source is started.
\<close>

definition Execute_start :: "('f, 's) Search \<Rightarrow> error option \<Rightarrow> error + 'f state" where
  "Execute_start s ctx_err =
     (case ValidateParameters s of
        Some err \<Rightarrow> Inl err
      | None \<Rightarrow>
          (case ctx_err of
             Some err \<Rightarrow> Inl err
           | None \<Rightarrow>
               Inr \<lparr>matches = (case MatchCacher s of None \<Rightarrow> NopCacher | Some m \<Rightarrow> m),
                    callbacks = [], stderr = [], cause = None,
                    running = length (DataSources s), certs = [], closed = False,
                    received = [], returned = None\<rparr>))"

text \<open>One turn of the loop for a byte string received from \<^verbatim>\<open>certs\<close>.\<close>

definition receive ::
  "'f crypto \<Rightarrow> ('f, 's) Search \<Rightarrow> bytes \<Rightarrow> 'f state \<Rightarrow> 'f state" where
  "receive lib s certBytes st =
     (let st = st\<lparr>received := received st @ [certBytes]\<rparr>
      in if \<not> derFilter s certBytes then st
         else
           (case ParseCertificate lib certBytes of
              Inl err \<Rightarrow> st\<lparr>stderr := stderr st @ [''parsing certificate: '' @ Error err]\<rparr>
            | Inr cert \<Rightarrow>
                if \<not> filter_in_force s cert then st
                else
                  (case Cache lib (matches st) cert of
                     (present, cacher) \<Rightarrow>
                       if present then st\<lparr>matches := cacher\<rparr>
                       else st\<lparr>matches := cacher, callbacks := callbacks st @ [cert]\<rparr>)))"

text \<open>The consumer loop on the byte strings delivered to it, in order.\<close>

definition consumer_loop ::
  "'f crypto \<Rightarrow> ('f, 's) Search \<Rightarrow> bytes list \<Rightarrow> 'f state \<Rightarrow> 'f state" where
  "consumer_loop lib s delivered st = foldl (\<lambda>st certBytes. receive lib s certBytes st) st delivered"

text \<open>
  The goroutines of \<^verbatim>\<open>Execute\<close> take steps in any order. A step is one of: a data
  source sends a byte string on \<^verbatim>\<open>certs\<close> (possible while the source runs and the
  buffer, as long as the list of sources, has room); a data source returns, with an
  error or without, and its goroutine cancels the context under
  \<^verbatim>\<open>ErrorBehaviorCancel\<close> and leaves the wait group; the closing goroutine closes
  \<^verbatim>\<open>certs\<close> once the wait group is empty; the context given to \<^verbatim>\<open>Execute\<close> is
  cancelled from outside; the consumer takes the receive case of its \<^verbatim>\<open>select\<close> (a byte
  string, or the closed and empty channel, on which \<^verbatim>\<open>Execute\<close> returns \<^verbatim>\<open>nil\<close>); the
  consumer takes the case of the cancelled context and returns its cause. A step that
  cannot be taken in a state is \<open>None\<close>.
\<close>

datatype event =
    Send bytes
  | SourceReturns "error option"
  | CloseCerts
  | CancelParent error
  | Receive
  | Done

definition cancel :: "error \<Rightarrow> 'f state \<Rightarrow> 'f state" where
  "cancel err st = (if cause st = None then st\<lparr>cause := Some err\<rparr> else st)"

fun step :: "'f crypto \<Rightarrow> ('f, 's) Search \<Rightarrow> event \<Rightarrow> 'f state \<Rightarrow> 'f state option" where
  "step lib s (Send certBytes) st =
     (if 0 < running st \<and> \<not> closed st \<and> length (certs st) < length (DataSources s)
      then Some (st\<lparr>certs := certs st @ [certBytes]\<rparr>)
      else None)"
| "step lib s (SourceReturns result) st =
     (if running st = 0 then None
      else
        (case result of
           None \<Rightarrow> Some (st\<lparr>running := running st - 1\<rparr>)
         | Some err \<Rightarrow>
             if DataSourceErrorBehavior s = ErrorBehaviorCancel
             then Some ((cancel err
                    (st\<lparr>stderr := stderr st @ [''data source encountered error: '' @ Error err]\<rparr>))
                    \<lparr>running := running st - 1\<rparr>)
             else Some (st\<lparr>running := running st - 1\<rparr>)))"
| "step lib s CloseCerts st =
     (if running st = 0 \<and> \<not> closed st then Some (st\<lparr>closed := True\<rparr>) else None)"
| "step lib s (CancelParent err) st = Some (cancel err st)"
| "step lib s Receive st =
     (if returned st \<noteq> None then None
      else
        (case certs st of
           [] \<Rightarrow> if closed st then Some (st\<lparr>returned := Some None\<rparr>) else None
         | certBytes # rest \<Rightarrow> Some (receive lib s certBytes (st\<lparr>certs := rest\<rparr>))))"
| "step lib s Done st =
     (if returned st \<noteq> None then None
      else
        (case cause st of
           None \<Rightarrow> None
         | Some err \<Rightarrow> Some (st\<lparr>returned := Some (Some err)\<rparr>)))"

fun run :: "'f crypto \<Rightarrow> ('f, 's) Search \<Rightarrow> event list \<Rightarrow> 'f state \<Rightarrow> 'f state option" where
  "run lib s [] st = Some st"
| "run lib s (ev # evs) st =
     (case step lib s ev st of None \<Rightarrow> None | Some st' \<Rightarrow> run lib s evs st')"


section \<open>Reference definitions for the checkpoint format\<close>

text \<open>
  The \<open>k\<close>-th line of a text, counted from 0: what stands between the \<open>k\<close>-th line
  feed and the next one.
\<close>

fun nth_line :: "nat \<Rightarrow> string \<Rightarrow> string" where
  "nth_line 0 s = takeWhile (\<lambda>c. c \<noteq> LF) s"
| "nth_line (Suc k) s = nth_line k (tl (dropWhile (\<lambda>c. c \<noteq> LF) s))"

declare nth_line.simps [simp del]

definition second_line :: "string \<Rightarrow> string" where
  "second_line s = nth_line 1 s"

definition third_line :: "string \<Rightarrow> string" where
  "third_line s = nth_line 2 s"

text \<open>
  A canonical decimal of a non-negative number: digits only, at least one, and no
  leading zero but in \<open>0\<close> itself. \<open>decimal_value\<close> is the number it writes.
\<close>

definition is_digit :: "char \<Rightarrow> bool" where
  "is_digit c = (digit_val c \<noteq> None)"

definition canonical_decimal :: "string \<Rightarrow> bool" where
  "canonical_decimal s = (s \<noteq> [] \<and> list_all is_digit s \<and> (s = ''0'' \<or> hd s \<noteq> CHR ''0''))"

definition decimal_from :: "nat \<Rightarrow> string \<Rightarrow> nat" where
  "decimal_from n s = foldl (\<lambda>n c. 10 * n + (case digit_val c of Some d \<Rightarrow> d | None \<Rightarrow> 0)) n s"

definition decimal_value :: "string \<Rightarrow> nat" where
  "decimal_value s = decimal_from 0 s"

text \<open>The third line is the base64 text of 32 bytes.\<close>

definition decodes_to_32_bytes :: "string \<Rightarrow> bool" where
  "decodes_to_32_bytes s = (case DecodeString s of Inl err \<Rightarrow> False | Inr hash \<Rightarrow> length hash = 32)"

text \<open>
  A checkpoint text the code accepts: three line feeds, at most 1000000 bytes, a
  canonical decimal below \<open>2 ^ 63\<close> on the second line, 32 bytes in base64 on the third.
\<close>

definition wellformed_checkpoint :: "string \<Rightarrow> bool" where
  "wellformed_checkpoint text =
     (3 \<le> Count text LF \<and> length text \<le> 1000000 \<and>
      canonical_decimal (second_line text) \<and> decimal_value (second_line text) < 2 ^ 63 \<and>
      decodes_to_32_bytes (third_line text))"

text \<open>
  Example checkpoints: an origin line, the given second line, the base64 text of 32
  zero bytes, and after the third line feed the given rest.
\<close>

definition example_root_hash :: string where
  "example_root_hash = ''AAAAAAAAAAAAAAAAAAAAAAAAAAAAAAAAAAAAAAAAAAA=''"

definition example_checkpoint :: "string \<Rightarrow> string \<Rightarrow> string" where
  "example_checkpoint line2 rest =
     ''example.org/log'' @ [LF] @ line2 @ [LF] @ example_root_hash @ [LF] @ rest"

text \<open>
  Two texts with the three lines in order: one of 1000065 bytes, more than 1000000 and
  less than \<open>2 ^ 20\<close>, and one whose tree size is \<open>2 ^ 63\<close>.
\<close>

definition oversize_checkpoint :: string where
  "oversize_checkpoint = example_checkpoint ''256'' (replicate 1000000 (CHR ''-''))"

definition huge_checkpoint :: string where
  "huge_checkpoint = example_checkpoint ''9223372036854775808'' ''signature''"


section \<open>Reference definitions for tile paths\<close>

text \<open>
  The path as the specification describes it: the three least significant decimal
  digits of the index, zero-padded, after one segment \<open>xDDD/\<close> for every higher group
  of three digits, the most significant group first.
\<close>

definition pad3 :: "nat \<Rightarrow> string" where
  "pad3 g = [digit_char (g div 100), digit_char (g div 10 mod 10), digit_char (g mod 10)]"

fun spec_prefix :: "nat \<Rightarrow> string" where
  "spec_prefix r = (if r = 0 then [] else spec_prefix (r div 1000) @ ''x'' @ pad3 (r mod 1000) @ ''/'')"

declare spec_prefix.simps [simp del]

definition spec_tile_path :: "nat \<Rightarrow> string" where
  "spec_tile_path i = spec_prefix (i div 1000) @ pad3 (i mod 1000)"

definition parse3 :: "char \<Rightarrow> char \<Rightarrow> char \<Rightarrow> nat option" where
  "parse3 a b c =
     (case (digit_val a, digit_val b, digit_val c) of
        (Some x, Some y, Some z) \<Rightarrow> Some (100 * x + 10 * y + z)
      | _ \<Rightarrow> None)"

text \<open>
  Reading a path back: every segment but the last is \<open>x\<close>, three digits and a slash,
  the last one is three digits; the index is the number the groups write in base 1000.
  The repository has no such function; it is the inverse the round trip is stated with.
\<close>

fun parse_path :: "nat \<Rightarrow> string \<Rightarrow> nat option" where
  "parse_path acc [a, b, c] =
     (case parse3 a b c of None \<Rightarrow> None | Some v \<Rightarrow> Some (acc * 1000 + v))"
| "parse_path acc (x # a # b # c # sl # rest) =
     (if x = CHR ''x'' \<and> sl = CHR ''/''
      then (case parse3 a b c of None \<Rightarrow> None | Some v \<Rightarrow> parse_path (acc * 1000 + v) rest)
      else None)"
| "parse_path acc _ = None"

definition spec_IndexFromTilePath :: "string \<Rightarrow> nat option" where
  "spec_IndexFromTilePath p = parse_path 0 p"


section \<open>Reference definitions for the log client\<close>

text \<open>
  The first \<open>n\<close> leaf records of a tile body and what follows them, when \<open>n\<close> records
  can be read one after the other.
\<close>

fun take_leaves ::
  "(bytes \<Rightarrow> error + (LogEntry \<times> bytes)) \<Rightarrow> nat \<Rightarrow> bytes \<Rightarrow> (LogEntry list \<times> bytes) option" where
  "take_leaves rd 0 tileData = Some ([], tileData)"
| "take_leaves rd (Suc n) tileData =
     (case rd tileData of
        Inl err \<Rightarrow> None
      | Inr (entry, rest) \<Rightarrow>
          (case take_leaves rd n rest of
             None \<Rightarrow> None
           | Some (entries, trailing) \<Rightarrow> Some (entry # entries, trailing)))"

text \<open>
  The binary search as the specification describes it, on unbounded integers: while
  the interval from \<open>low\<close> to \<open>high\<close> is not empty, fetch the tile in its middle; go
  left when \<open>t\<close> is strictly before the first timestamp of that tile, right when it is
  strictly after the last one, and return the tile otherwise. An empty interval is an
  error, and so is a tile that cannot be fetched.
\<close>

function spec_search ::
  "(int \<Rightarrow> 'w \<Rightarrow> (error + LogEntry list) \<times> 'w) \<Rightarrow> Time \<Rightarrow> int \<Rightarrow> int \<Rightarrow> 'w \<Rightarrow> (error + int) \<times> 'w" where
  "spec_search fetch t low high w =
     (if high < low
      then (Inl (New ''timestamp doesn't fall within the time bounds of the log entries''), w)
      else
        (case fetch ((low + high) div 2) w of
           (Inl err, w') \<Rightarrow> (Inl (Errorf ''getting entries for tile'' err), w')
         | (Inr tileEntries, w') \<Rightarrow>
             if t < UnixMilli (Timestamp (tileEntries ! 0))
             then spec_search fetch t low ((low + high) div 2 - 1) w'
             else if UnixMilli (Timestamp (tileEntries ! 255)) < t
             then spec_search fetch t ((low + high) div 2 + 1) high w'
             else (Inr ((low + high) div 2), w')))"
  by pat_completeness auto
termination
  by (relation "measure (\<lambda>(fetch, t, low, high, w). nat (high - low + 1))") auto

declare spec_search.simps [simp del]

text \<open>An \<^verbatim>\<open>int64\<close> value.\<close>

definition int64 :: "int \<Rightarrow> bool" where
  "int64 x = (- (2 ^ 63) \<le> x \<and> x < 2 ^ 63)"


section \<open>Reference definitions for the search engine\<close>




text \<open>
  The byte strings sent on \<^verbatim>\<open>certs\<close> in a list of steps, in order, and whether a step
  is a cancellation from outside.
\<close>

fun sends :: "event list \<Rightarrow> bytes list" where
  "sends [] = []"
| "sends (Send certBytes # evs) = certBytes # sends evs"
| "sends (ev # evs) = sends evs"

fun is_CancelParent :: "event \<Rightarrow> bool" where
  "is_CancelParent (CancelParent err) = True"
| "is_CancelParent ev = False"

text \<open>Two states in which the consumer has done the same.\<close>

definition same_consumer :: "'f state \<Rightarrow> 'f state \<Rightarrow> bool" where
  "same_consumer st st' =
     (matches st = matches st' \<and> callbacks st = callbacks st' \<and> stderr st = stderr st' \<and>
      received st = received st')"

text \<open>
  What holds of every state of a search that continues after the errors of its sources
  and is not cancelled from outside: the context is not cancelled, \<^verbatim>\<open>Execute\<close> has
  not returned an error, the consumer has done what the loop does on the byte strings
  it received, and what was sent is what was received and what the channel holds.
\<close>

definition continue_inv ::
  "'f crypto \<Rightarrow> ('f, 's) Search \<Rightarrow> 'f state \<Rightarrow> bytes list \<Rightarrow> 'f state \<Rightarrow> bool" where
  "continue_inv lib s st0 sent st =
     (cause st = None \<and> (returned st = None \<or> returned st = Some None) \<and>
      same_consumer st (consumer_loop lib s (received st) st0) \<and>
      received st @ certs st = sent)"


section \<open>An example log\<close>

text \<open>
  A small world to run the client in. The state of the world is the number of requests
  made so far. The server holds pages by URL and answers 404 for every other URL; a
  context may be cancelled once a given number of requests has been made, and every
  request after that fails with the context's error. A leaf is one byte: the timestamp
  of the entry and its certificate. A tile is 256 equal leaves, with whatever follows.
  The retry loop runs the operation until it succeeds or the retries are used up.
\<close>

definition example_leaf :: "bytes \<Rightarrow> error + (LogEntry \<times> bytes)" where
  "example_leaf tileData =
     (case tileData of
        [] \<Rightarrow> Inl (External ''invalid data tile'')
      | c # rest \<Rightarrow>
          Inr (\<lparr>Timestamp = of_char c, IsPrecert = False, Certificate = [c], PreCertificate = []\<rparr>,
               rest))"

definition example_entry :: "char \<Rightarrow> LogEntry" where
  "example_entry c = \<lparr>Timestamp = of_char c, IsPrecert = False, Certificate = [c], PreCertificate = []\<rparr>"

definition example_tile :: "char \<Rightarrow> bytes" where
  "example_tile c = replicate 256 c"

definition example_cancelled :: "nat option \<Rightarrow> nat \<Rightarrow> bool" where
  "example_cancelled cancel_at w = (case cancel_at of None \<Rightarrow> False | Some k \<Rightarrow> k \<le> w)"

definition example_Do ::
  "(string \<times> bytes) list \<Rightarrow> nat option \<Rightarrow> request \<Rightarrow> nat \<Rightarrow> (error + response) \<times> nat" where
  "example_Do pages cancel_at req w =
     (if example_cancelled cancel_at w then (Inl Canceled, Suc w)
      else
        (case map_of pages (req_url req) of
           None \<Rightarrow>
             (Inr \<lparr>StatusCode = 404, Status = ''404 Not Found'', ContentEncoding = [],
                   Body = Inr []\<rparr>, Suc w)
         | Some body \<Rightarrow>
             (Inr \<lparr>StatusCode = 200, Status = ''200 OK'', ContentEncoding = [],
                   Body = Inr body\<rparr>, Suc w)))"

fun example_retry ::
  "nat \<Rightarrow> (nat \<Rightarrow> (error + LogEntry list) \<times> nat) \<Rightarrow> nat \<Rightarrow> (error + LogEntry list) \<times> nat" where
  "example_retry 0 operation w = operation w"
| "example_retry (Suc n) operation w =
     (case operation w of
        (Inl err, w') \<Rightarrow> example_retry n operation w'
      | (Inr entries, w') \<Rightarrow> (Inr entries, w'))"

definition example_env :: "(string \<times> bytes) list \<Rightarrow> nat option \<Rightarrow> nat env" where
  "example_env pages cancel_at =
     \<lparr>JoinPath = (\<lambda>base path. base @ path),
      NewRequestWithContext = (\<lambda>ctx method url. None),
      Do = example_Do pages cancel_at,
      gunzip = (\<lambda>body. NewReaderError (External ''gzip: invalid header'')),
      ReadTileLeaf = example_leaf,
      RetryWithData = (\<lambda>operation bo ctx w. example_retry (unat (bo_MaxRetries bo)) operation w)\<rparr>"

definition example_log :: Log where
  "example_log =
     \<lparr>MetricsEndpoint = ''https://log.example'',
      TileRetry = \<lparr>MaxAttempts = 2, MaxInterval = 1, Timeout = 2\<rparr>\<rparr>"

text \<open>Three tiles with the timestamps 97, 98 and 99, and a checkpoint of 1000 entries.\<close>

definition example_pages :: "(string \<times> bytes) list" where
  "example_pages =
     [(''https://log.example/checkpoint'', example_checkpoint ''1000'' ''signature''),
      (''https://log.example/tile/data/000'', example_tile (CHR ''a'') @ ''trailing''),
      (''https://log.example/tile/data/001'', example_tile (CHR ''b'')),
      (''https://log.example/tile/data/002'', example_tile (CHR ''c''))]"


text \<open>A data source for the example log: final certificates from instant 97 to 99.\<close>

definition example_source :: DataSource where
  "example_source =
     \<lparr>Log = Some example_log, IncludePrecertificates = False, IncludeCertificates = True,
      StartTimeInclusive = UnixMilli 97, EndTimeInclusive = UnixMilli 99, MaxConnections = 1\<rparr>"

section \<open>An example search\<close>

text \<open>
  A parser that takes the byte strings that begin with the byte 0x30 (the character
  \<open>0\<close>, the tag of a DER sequence), a fingerprint that is the byte string itself, and a
  search with two data sources, no filter on the bytes, a filter that matches every
  certificate, the exact cacher, and the policy to continue after the error of a source.
\<close>

definition example_parse :: "bytes \<Rightarrow> error + x509_Certificate" where
  "example_parse certBytes =
     (if take 1 certBytes = ''0''
      then Inr \<lparr>Raw = certBytes, Issuer = ''CN=Example CA'', Subject = drop 1 certBytes\<rparr>
      else Inl (External ''x509: malformed certificate''))"

definition example_crypto :: "unit crypto" where
  "example_crypto =
     \<lparr>ParseCertificate = example_parse, Sum256 = (\<lambda>certBytes. certBytes),
      TestOrAdd = (\<lambda>certBytes bloom. (False, bloom))\<rparr>"

definition example_search :: "(unit, string) Search" where
  "example_search =
     \<lparr>DERFilter = None, Filter = Some (\<lambda>cert. True), MatchCallback = Some (\<lambda>cert. ()),
      DataSources = [''tiled log'', ''boulder''], MatchCacher = Some NewSha256MapCacher,
      DataSourceErrorBehavior = ErrorBehaviorContinue\<rparr>"

definition example_start :: "unit state" where
  "example_start =
     \<lparr>matches = NewSha256MapCacher, callbacks = [], stderr = [], cause = None, running = 2,
      certs = [], closed = False, received = [], returned = None\<rparr>"

definition example_cert :: "bytes \<Rightarrow> x509_Certificate" where
  "example_cert certBytes =
     \<lparr>Raw = certBytes, Issuer = ''CN=Example CA'', Subject = drop 1 certBytes\<rparr>"


section \<open>Decimal numbers\<close>

lemma decimal_from_Nil [simp]: "decimal_from n [] = n"
  by (simp add: decimal_from_def)

lemma decimal_from_Cons:
  "decimal_from n (c # cs) = decimal_from (10 * n + (case digit_val c of Some d \<Rightarrow> d | None \<Rightarrow> 0)) cs"
  by (simp add: decimal_from_def)

lemma decimal_from_snoc:
  "decimal_from n (cs @ [c]) = 10 * decimal_from n cs + (case digit_val c of Some d \<Rightarrow> d | None \<Rightarrow> 0)"
  by (simp add: decimal_from_def)

lemma decimal_from_ge: "n \<le> decimal_from n s"
proof (induction s arbitrary: n)
  case Nil
  show ?case by simp
next
  case (Cons c cs)
  have "n \<le> 10 * n + (case digit_val c of Some d \<Rightarrow> d | None \<Rightarrow> 0)" by simp
  also have "\<dots> \<le> decimal_from (10 * n + (case digit_val c of Some d \<Rightarrow> d | None \<Rightarrow> 0)) cs"
    by (rule Cons.IH)
  finally show ?case by (simp add: decimal_from_Cons)
qed

lemma digit_val_lt10: "digit_val c = Some d \<Longrightarrow> d < 10"
  by (auto simp: digit_val_def Let_def split: if_splits)

lemma digit_char_digit_val: "digit_val c = Some d \<Longrightarrow> digit_char d = c"
  by (auto simp: digit_val_def digit_char_def Let_def split: if_splits)

lemma digit_val_digit_char: "d < 10 \<Longrightarrow> digit_val (digit_char d) = Some d"
  by (simp add: digit_val_def digit_char_def)

lemma digit_val_zero: "digit_val c = Some 0 \<longleftrightarrow> c = CHR ''0''"
proof
  assume "digit_val c = Some 0"
  then have "digit_char 0 = c" by (rule digit_char_digit_val)
  moreover have "digit_char 0 = CHR ''0''" by code_simp
  ultimately show "c = CHR ''0''" by simp
next
  assume "c = CHR ''0''"
  then show "digit_val c = Some 0" by (simp add: digit_val_def)
qed

lemma ParseUint_loop_digits:
  assumes "list_all is_digit s" and "n \<le> maxUint64"
  shows "ParseUint_loop n s =
     (if decimal_from n s \<le> maxUint64 then (decimal_from n s, None) else (maxUint64, Some ErrRange))"
  using assms
proof (induction s arbitrary: n)
  case Nil
  then show ?case by simp
next
  case (Cons c cs)
  from Cons.prems have c: "is_digit c" and cs: "list_all is_digit cs"
    by simp_all
  from c obtain d where d: "digit_val c = Some d"
    by (auto simp: is_digit_def)
  have d10: "d < 10" using d by (rule digit_val_lt10)
  have step: "decimal_from n (c # cs) = decimal_from (10 * n + d) cs"
    by (simp add: decimal_from_Cons d)
  have ge: "10 * n + d \<le> decimal_from (10 * n + d) cs"
    by (rule decimal_from_ge)
  show ?case
  proof (cases "n \<ge> maxUint64 div 10 + 1")
    case True
    then have "maxUint64 < 10 * n + d" by (simp add: maxUint64_def)
    with ge have "\<not> decimal_from (10 * n + d) cs \<le> maxUint64" by linarith
    with True show ?thesis by (simp add: d step)
  next
    case False
    then have n10: "n * 10 < 2 ^ 64" by (simp add: maxUint64_def)
    show ?thesis
    proof (cases "n * 10 + d < 2 ^ 64")
      case True
      then have le: "10 * n + d \<le> maxUint64" by (simp add: maxUint64_def)
      have m0: "n * 10 mod 18446744073709551616 = 10 * n"
        using n10 by (simp add: mult.commute)
      have m: "(10 * n + d) mod 18446744073709551616 = 10 * n + d"
        using True by (simp add: mult.commute)
      have "ParseUint_loop n (c # cs) = ParseUint_loop (10 * n + d) cs"
        using False le by (simp add: d Let_def m m0 del: One_nat_def)
      also have "\<dots> = (if decimal_from (10 * n + d) cs \<le> maxUint64
          then (decimal_from (10 * n + d) cs, None) else (maxUint64, Some ErrRange))"
        using cs le by (rule Cons.IH)
      finally show ?thesis by (simp add: step)
    next
      case over: False
      then have gt: "maxUint64 < 10 * n + d" by (simp add: maxUint64_def mult.commute)
      with ge have big: "\<not> decimal_from (10 * n + d) cs \<le> maxUint64" by linarith
      have m0: "n * 10 mod 18446744073709551616 = n * 10"
        using n10 by simp
      have "n * 10 + d < 18446744073709551616 + 18446744073709551616" using n10 d10 by simp
      then have m: "(n * 10 + d) mod 18446744073709551616 = n * 10 + d - 18446744073709551616"
        using over by (simp add: mod_if)
      have "n * 10 + d - 18446744073709551616 < n * 10" using over d10 by simp
      then have "ParseUint_loop n (c # cs) = (maxUint64, Some ErrRange)"
        using False by (simp add: d Let_def m m0 del: One_nat_def)
      then show ?thesis using big by (simp add: step)
    qed
  qed
qed

lemma ParseUint_loop_nondigit:
  assumes "\<not> list_all is_digit s"
  shows "snd (ParseUint_loop n s) \<noteq> None"
  using assms
proof (induction s arbitrary: n)
  case Nil
  then show ?case by simp
next
  case (Cons c cs)
  show ?case
  proof (cases "digit_val c")
    case None
    then show ?thesis by simp
  next
    case (Some d)
    then have "is_digit c" by (simp add: is_digit_def)
    with Cons.prems have "\<not> list_all is_digit cs" by simp
    then have "\<And>m. snd (ParseUint_loop m cs) \<noteq> None" by (rule Cons.IH)
    then show ?thesis by (simp add: Some Let_def)
  qed
qed

lemma dec_digits_all_digits: "list_all is_digit (dec_digits n)"
proof (induction n rule: dec_digits.induct)
  case (1 n)
  show ?case
  proof (cases "n < 10")
    case True
    then show ?thesis
      by (simp add: dec_digits.simps [of n] is_digit_def digit_val_digit_char)
  next
    case False
    have "is_digit (digit_char (n mod 10))"
      by (simp add: is_digit_def digit_val_digit_char)
    with False "1.IH" show ?thesis
      by (simp add: dec_digits.simps [of n])
  qed
qed

lemma dec_digits_value: "decimal_from 0 (dec_digits n) = n"
proof (induction n rule: dec_digits.induct)
  case (1 n)
  show ?case
  proof (cases "n < 10")
    case True
    then show ?thesis
      by (simp add: dec_digits.simps [of n] decimal_from_Cons digit_val_digit_char)
  next
    case False
    with "1.IH" show ?thesis
      by (simp add: dec_digits.simps [of n] decimal_from_snoc digit_val_digit_char)
  qed
qed

lemma dec_digits_not_Nil: "dec_digits n \<noteq> []"
  by (simp add: dec_digits.simps [of n])

lemma dec_digits_hd: "10 \<le> n \<Longrightarrow> hd (dec_digits n) \<noteq> CHR ''0''"
proof (induction n rule: dec_digits.induct)
  case (1 n)
  from "1.prems" have nd: "\<not> n < 10" by simp
  have hd: "hd (dec_digits n) = hd (dec_digits (n div 10))"
    using nd by (simp add: dec_digits.simps [of n] dec_digits_not_Nil)
  show ?case
  proof (cases "10 \<le> n div 10")
    case True
    with "1.IH" nd hd show ?thesis by simp
  next
    case False
    then have lt: "n div 10 < 10" by simp
    have pos: "n div 10 \<noteq> 0" using "1.prems" by simp
    have "hd (dec_digits (n div 10)) = digit_char (n div 10)"
      using lt by (simp add: dec_digits.simps [of "n div 10"])
    moreover have "digit_char (n div 10) \<noteq> CHR ''0''"
    proof
      assume "digit_char (n div 10) = CHR ''0''"
      then have "digit_val (digit_char (n div 10)) = Some 0" by (simp add: digit_val_zero)
      with lt pos show False by (simp add: digit_val_digit_char)
    qed
    ultimately show ?thesis using hd by simp
  qed
qed

lemma dec_digits_canonical: "canonical_decimal (dec_digits n)"
proof (cases "n < 10")
  case True
  have "digit_char n = CHR ''0'' \<Longrightarrow> n = 0"
  proof -
    assume "digit_char n = CHR ''0''"
    then have "digit_val (digit_char n) = Some 0" by (simp add: digit_val_zero)
    with True show "n = 0" by (simp add: digit_val_digit_char)
  qed
  moreover have "digit_char 0 = CHR ''0''" by code_simp
  ultimately show ?thesis
    using True dec_digits_all_digits [of n]
    by (auto simp: canonical_decimal_def dec_digits.simps [of n])
next
  case False
  then show ?thesis
    using dec_digits_all_digits [of n] dec_digits_hd [of n]
    by (simp add: canonical_decimal_def dec_digits_not_Nil)
qed

lemma decimal_from_pos:
  assumes "list_all is_digit s" and "s \<noteq> []" and "hd s \<noteq> CHR ''0''"
  shows "0 < decimal_from 0 s"
proof -
  from assms(2) obtain c cs where s: "s = c # cs" by (cases s) auto
  from assms(1) s obtain d where d: "digit_val c = Some d"
    by (auto simp: is_digit_def)
  have "d \<noteq> 0"
  proof
    assume "d = 0"
    with d have "c = CHR ''0''" by (simp add: digit_val_zero)
    with assms(3) s show False by simp
  qed
  moreover have "d \<le> decimal_from d cs" by (rule decimal_from_ge)
  ultimately show ?thesis by (simp add: s decimal_from_Cons d)
qed

lemma canonical_dec_digits:
  "canonical_decimal s \<Longrightarrow> dec_digits (decimal_from 0 s) = s"
proof (induction s rule: rev_induct)
  case Nil
  then show ?case by (simp add: canonical_decimal_def)
next
  case (snoc c xs)
  from snoc.prems have cdig: "is_digit c" and xsdig: "list_all is_digit xs"
    by (simp_all add: canonical_decimal_def)
  from cdig obtain d where d: "digit_val c = Some d" by (auto simp: is_digit_def)
  have d10: "d < 10" using d by (rule digit_val_lt10)
  have dc: "digit_char d = c" using d by (rule digit_char_digit_val)
  have v: "decimal_from 0 (xs @ [c]) = 10 * decimal_from 0 xs + d"
    by (simp add: decimal_from_snoc d)
  show ?case
  proof (cases "xs = []")
    case True
    then show ?thesis
      using d10 dc by (simp add: decimal_from_Cons d dec_digits.simps [of d])
  next
    case False
    then have hdxs: "hd (xs @ [c]) = hd xs" by simp
    have ne0: "xs @ [c] \<noteq> ''0''" using False by (cases xs) auto
    with snoc.prems hdxs have hd: "hd xs \<noteq> CHR ''0''"
      by (simp add: canonical_decimal_def)
    then have can: "canonical_decimal xs"
      using False xsdig by (simp add: canonical_decimal_def)
    have pos: "0 < decimal_from 0 xs"
      using xsdig False hd by (rule decimal_from_pos)
    then have big: "\<not> 10 * decimal_from 0 xs + d < 10" by simp
    have dv: "(10 * decimal_from 0 xs + d) div 10 = decimal_from 0 xs" using d10 by simp
    have md: "(10 * decimal_from 0 xs + d) mod 10 = d" using d10 by simp
    have md': "d mod 10 = d" using d10 by simp
    show ?thesis
      using big snoc.IH [OF can]
      by (simp add: v dec_digits.simps [of "10 * decimal_from 0 xs + d"] dv md md' dc)
  qed
qed

section \<open>Parsing a checkpoint\<close>

lemma wrap64_id: "- (2 ^ 63) \<le> x \<Longrightarrow> x < 2 ^ 63 \<Longrightarrow> wrap64 x = x"
  by (simp add: wrap64_def)

lemma ParseInt_digits:
  assumes "s \<noteq> []" and "list_all is_digit s"
  shows "ParseInt s =
     (if decimal_value s < 2 ^ 63 then Inr (int (decimal_value s)) else Inl ErrRange)"
proof -
  from assms obtain c cs where s: "s = c # cs" and c: "is_digit c"
    by (cases s) auto
  have nosign: "c \<noteq> CHR ''+''" "c \<noteq> CHR ''-''"
    using c by (auto simp: is_digit_def digit_val_def)
  have pu: "ParseUint s =
      (if decimal_from 0 s \<le> maxUint64 then (decimal_from 0 s, None) else (maxUint64, Some ErrRange))"
    using assms by (simp add: ParseUint_def ParseUint_loop_digits)
  show ?thesis
  proof (cases "decimal_from 0 s \<le> maxUint64")
    case True
    show ?thesis
    proof (cases "decimal_from 0 s < 2 ^ 63")
      case small: True
      then have "wrap64 (int (decimal_from 0 s)) = int (decimal_from 0 s)"
        by (intro wrap64_id) simp_all
      then show ?thesis
        using True small nosign pu
        by (simp add: ParseInt_def s decimal_value_def Let_def)
    next
      case False
      then show ?thesis
        using True nosign pu
        by (simp add: ParseInt_def s decimal_value_def Let_def)
    qed
  next
    case False
    then have "\<not> decimal_from 0 s < 2 ^ 63" by (simp add: maxUint64_def)
    then show ?thesis
      using False nosign pu
      by (simp add: ParseInt_def s decimal_value_def Let_def maxUint64_def)
  qed
qed

lemma ParseInt_canonical_iff:
  "(ParseInt s = Inr n \<and> 0 \<le> n \<and> s = FormatInt n) \<longleftrightarrow>
   (canonical_decimal s \<and> int (decimal_value s) = n \<and> n < 2 ^ 63)"
proof
  assume a: "ParseInt s = Inr n \<and> 0 \<le> n \<and> s = FormatInt n"
  then have s: "s = dec_digits (nat n)" by (simp add: FormatInt_def)
  have can: "canonical_decimal s" unfolding s by (rule dec_digits_canonical)
  have v: "decimal_value s = nat n" by (simp add: s decimal_value_def dec_digits_value)
  have "s \<noteq> []" "list_all is_digit s"
    using can by (simp_all add: canonical_decimal_def)
  then have "ParseInt s =
     (if decimal_value s < 2 ^ 63 then Inr (int (decimal_value s)) else Inl ErrRange)"
    by (rule ParseInt_digits)
  with a have "decimal_value s < 2 ^ 63" by (auto split: if_splits)
  with v a can show "canonical_decimal s \<and> int (decimal_value s) = n \<and> n < 2 ^ 63"
    by simp
next
  assume a: "canonical_decimal s \<and> int (decimal_value s) = n \<and> n < 2 ^ 63"
  then have "s \<noteq> []" "list_all is_digit s"
    by (simp_all add: canonical_decimal_def)
  then have "ParseInt s =
     (if decimal_value s < 2 ^ 63 then Inr (int (decimal_value s)) else Inl ErrRange)"
    by (rule ParseInt_digits)
  moreover have "decimal_value s < 2 ^ 63"
  proof -
    from a have "int (decimal_value s) < 2 ^ 63" by simp
    then show ?thesis by (metis of_nat_less_numeral_power_cancel_iff)
  qed
  ultimately have p: "ParseInt s = Inr n" using a by simp
  have n0: "0 \<le> n" using a by auto
  have "dec_digits (decimal_from 0 s) = s" using a by (simp add: canonical_dec_digits)
  moreover have "nat n = decimal_from 0 s" using a by (auto simp: decimal_value_def)
  ultimately have "s = FormatInt n" using n0 by (simp add: FormatInt_def)
  with p n0 show "ParseInt s = Inr n \<and> 0 \<le> n \<and> s = FormatInt n" by simp
qed

lemma Count_pos: "sep \<in> set s \<longleftrightarrow> 0 < Count s sep"
  by (induction s) (auto simp: Count_def)

lemma Count_rest: "Count (tl (dropWhile (\<lambda>c. c \<noteq> sep) s)) sep = Count s sep - 1"
  by (induction s) (auto simp: Count_def)

lemma SplitN_lines:
  assumes "3 \<le> Count text LF"
  shows "\<exists>rest. SplitN text LF 4 = [nth_line 0 text, nth_line 1 text, nth_line 2 text, rest]"
proof -
  let ?r = "\<lambda>s. tl (dropWhile (\<lambda>c. c \<noteq> LF) s)"
  have 0: "LF \<in> set text" using assms by (simp add: Count_pos)
  have "2 \<le> Count (?r text) LF" using assms by (simp add: Count_rest)
  then have 1: "LF \<in> set (?r text)" by (simp add: Count_pos)
  have "1 \<le> Count (?r (?r text)) LF" using assms by (simp add: Count_rest)
  then have 2: "LF \<in> set (?r (?r text))" by (simp add: Count_pos)
  have "SplitN text LF (Suc (Suc (Suc (Suc 0)))) =
      [nth_line 0 text, nth_line (Suc 0) text, nth_line (Suc (Suc 0)) text, ?r (?r (?r text))]"
    using 0 1 2 by (simp add: nth_line.simps)
  then show ?thesis by (simp add: numeral_eq_Suc)
qed

lemma TreeSizeFromCheckpoint_cases:
  "TreeSizeFromCheckpoint text =
     (if wellformed_checkpoint text then Inr (int (decimal_value (second_line text)))
      else TreeSizeFromCheckpoint text) \<and>
   (wellformed_checkpoint text \<or> isl (TreeSizeFromCheckpoint text))"
proof (cases "Count text LF < 3 \<or> length text > 1000000")
  case True
  then have "\<not> wellformed_checkpoint text" by (auto simp: wellformed_checkpoint_def)
  moreover have "isl (TreeSizeFromCheckpoint text)"
    using True by (simp add: TreeSizeFromCheckpoint_def)
  ultimately show ?thesis by simp
next
  case False
  then have c3: "3 \<le> Count text LF" and len: "length text \<le> 1000000" by simp_all
  from SplitN_lines [OF c3] obtain rest where
    sp: "SplitN text LF 4 = [nth_line 0 text, nth_line 1 text, nth_line 2 text, rest]" ..
  have sp: "SplitN text LF 4 = [nth_line 0 text, second_line text, third_line text, rest]"
    using sp by (simp add: second_line_def third_line_def)
  let ?l1 = "second_line text" and ?l2 = "third_line text"
  show ?thesis
  proof (cases "canonical_decimal ?l1 \<and> decimal_value ?l1 < 2 ^ 63")
    case good: True
    then have "canonical_decimal ?l1 \<and> int (decimal_value ?l1) = int (decimal_value ?l1)
        \<and> int (decimal_value ?l1) < 2 ^ 63" by simp
    then have p: "ParseInt ?l1 = Inr (int (decimal_value ?l1))"
      and f: "?l1 = FormatInt (int (decimal_value ?l1))"
      using ParseInt_canonical_iff [of ?l1 "int (decimal_value ?l1)"] by simp_all
    show ?thesis
      using False sp p f [symmetric] good c3 len
      by (auto simp: TreeSizeFromCheckpoint_def wellformed_checkpoint_def
          decodes_to_32_bytes_def split: sum.splits)
  next
    case bad: False
    then have nw: "\<not> wellformed_checkpoint text" by (auto simp: wellformed_checkpoint_def)
    have "isl (TreeSizeFromCheckpoint text)"
    proof (cases "ParseInt ?l1")
      case (Inl err)
      then show ?thesis using False sp by (simp add: TreeSizeFromCheckpoint_def)
    next
      case (Inr n)
      have "n < 0 \<or> ?l1 \<noteq> FormatInt n"
      proof (rule ccontr)
        assume "\<not> (n < 0 \<or> ?l1 \<noteq> FormatInt n)"
        with Inr have "ParseInt ?l1 = Inr n \<and> 0 \<le> n \<and> ?l1 = FormatInt n" by simp
        then have "canonical_decimal ?l1 \<and> int (decimal_value ?l1) = n \<and> n < 2 ^ 63"
          by (simp only: ParseInt_canonical_iff)
        then have "canonical_decimal ?l1 \<and> decimal_value ?l1 < 2 ^ 63"
          by (metis of_nat_less_numeral_power_cancel_iff)
        with bad show False by simp
      qed
      then show ?thesis using False sp Inr by (auto simp: TreeSizeFromCheckpoint_def)
    qed
    with nw show ?thesis by simp
  qed
qed

lemma example_checkpoint_Count: "3 \<le> Count (example_checkpoint line2 rest) LF"
  by (simp add: example_checkpoint_def Count_def)

lemma example_checkpoint_length:
  "length (example_checkpoint line2 rest) = 62 + length line2 + length rest"
  by (simp add: example_checkpoint_def example_root_hash_def)

lemma LF_not_digit: "list_all is_digit s \<Longrightarrow> LF \<notin> set s"
  by (induction s) (auto simp: is_digit_def digit_val_def LF_def)

lemma takeWhile_sep: "sep \<notin> set a \<Longrightarrow> takeWhile (\<lambda>c. c \<noteq> sep) (a @ sep # b) = a"
  by (induction a) auto

lemma dropWhile_sep: "sep \<notin> set a \<Longrightarrow> dropWhile (\<lambda>c. c \<noteq> sep) (a @ sep # b) = sep # b"
  by (induction a) auto

lemma nth_line_0: "LF \<notin> set a \<Longrightarrow> nth_line 0 (a @ LF # b) = a"
  by (simp add: takeWhile_sep nth_line.simps)

lemma nth_line_Suc: "LF \<notin> set a \<Longrightarrow> nth_line (Suc k) (a @ LF # b) = nth_line k b"
  by (simp add: dropWhile_sep nth_line.simps)

lemma LF_not_in_examples:
  "LF \<notin> set ''example.org/log''" "LF \<notin> set example_root_hash"
  by (simp_all add: LF_def example_root_hash_def)

lemma example_checkpoint_line1:
  assumes "LF \<notin> set line2"
  shows "second_line (example_checkpoint line2 rest) = line2"
proof -
  have "nth_line (Suc 0) (''example.org/log'' @ LF # (line2 @ LF # (example_root_hash @ LF # rest)))
      = nth_line 0 (line2 @ LF # (example_root_hash @ LF # rest))"
    using LF_not_in_examples(1) by (rule nth_line_Suc)
  also have "\<dots> = line2" using assms by (rule nth_line_0)
  finally show ?thesis by (simp add: example_checkpoint_def second_line_def)
qed

lemma example_checkpoint_line2:
  assumes "LF \<notin> set line2"
  shows "third_line (example_checkpoint line2 rest) = example_root_hash"
proof -
  have "nth_line (Suc (Suc 0)) (''example.org/log'' @ LF # (line2 @ LF # (example_root_hash @ LF # rest)))
      = nth_line (Suc 0) (line2 @ LF # (example_root_hash @ LF # rest))"
    using LF_not_in_examples(1) by (rule nth_line_Suc)
  also have "\<dots> = nth_line 0 (example_root_hash @ LF # rest)"
    using assms by (rule nth_line_Suc)
  also have "\<dots> = example_root_hash" using LF_not_in_examples(2) by (rule nth_line_0)
  finally show ?thesis by (simp add: example_checkpoint_def third_line_def numeral_2_eq_2)
qed

lemma example_root_hash_decodes: "decodes_to_32_bytes example_root_hash"
  by (simp add: decodes_to_32_bytes_def DecodeString_def example_root_hash_def decodeMap_def
      alphabet_def quantum_bytes_def skip_newlines_def LF_def CR_def)

lemma example_checkpoint_wellformed:
  assumes "canonical_decimal line2"
  shows "wellformed_checkpoint (example_checkpoint line2 rest) \<longleftrightarrow>
     length line2 + length rest \<le> 999938 \<and> decimal_value line2 < 2 ^ 63"
proof -
  have "LF \<notin> set line2"
    using assms by (simp add: canonical_decimal_def LF_not_digit)
  then have l1: "second_line (example_checkpoint line2 rest) = line2"
    and l2: "third_line (example_checkpoint line2 rest) = example_root_hash"
    by (rule example_checkpoint_line1, rule example_checkpoint_line2)
  show ?thesis
    unfolding wellformed_checkpoint_def l1 l2 example_checkpoint_length
    using assms example_checkpoint_Count [of line2 rest] example_root_hash_decodes
    by auto
qed

section \<open>Tile paths\<close>

lemma three_digits: "100 * (g div 100) + 10 * (g div 10 mod 10) + g mod 10 = (g::nat)"
proof -
  have 1: "g = 10 * (g div 10) + g mod 10" by simp
  have 2: "g div 10 = 10 * (g div 10 div 10) + g div 10 mod 10" by simp
  have 3: "g div 10 div 10 = g div 100" by (simp add: div_mult2_eq[symmetric])
  define a where "a = g div 10"
  define b where "b = g div 100"
  define c where "c = g div 10 mod 10"
  define d where "d = g mod 10"
  have "g = 10 * a + d" "a = 10 * b + c"
    using 1 2 3 by (simp_all add: a_def b_def c_def d_def)
  then have "100 * b + 10 * c + d = g" by simp
  then show ?thesis by (simp add: a_def b_def c_def d_def)
qed

lemma parse3_pad3:
  assumes "g < 1000"
  shows "parse3 (digit_char (g div 100)) (digit_char (g div 10 mod 10)) (digit_char (g mod 10)) = Some g"
proof -
  have a: "g div 100 < 10" using assms by simp
  show ?thesis
    by (simp add: parse3_def digit_val_digit_char a three_digits)
qed

lemma dec_digits_pad3:
  assumes "n < 1000"
  shows "replicate (3 - length (dec_digits n)) (CHR ''0'') @ dec_digits n = pad3 n"
proof -
  have z: "digit_char 0 = CHR ''0''" by code_simp
  consider "n < 10" | "10 \<le> n" "n < 100" | "100 \<le> n"
    by linarith
  then show ?thesis
  proof cases
    case 1
    then show ?thesis
      by (simp add: dec_digits.simps [of n] pad3_def z numeral_3_eq_3)
  next
    case 2
    then have "n div 10 < 10" by simp
    with 2 show ?thesis
      by (simp add: dec_digits.simps [of n] dec_digits.simps [of "n div 10"] pad3_def z)
  next
    case 3
    then have a: "\<not> n div 10 < 10" by simp
    have b: "n div 100 < 10" using assms by simp
    have c: "n div 10 div 10 = n div 100" by (simp add: div_mult2_eq[symmetric])
    from 3 a b show ?thesis
      by (simp add: dec_digits.simps [of n] dec_digits.simps [of "n div 10"]
          dec_digits.simps [of "n div 100"] pad3_def c)
  qed
qed

lemma Sprintf_03d_pad3: "0 \<le> g \<Longrightarrow> g < 1000 \<Longrightarrow> Sprintf_03d g = pad3 (nat g)"
  using dec_digits_pad3 [of "nat g"] by (simp add: Sprintf_03d_def)

lemma quot_nonneg: "0 \<le> a \<Longrightarrow> quot a 1000 = a div 1000"
  by (cases "a = 0") (simp_all add: quot_def)

lemma rem_nonneg: "0 \<le> a \<Longrightarrow> rem a 1000 = a mod 1000"
  by (simp add: rem_def quot_nonneg minus_mult_div_eq_mod)

lemma TilePath_loop_spec: "0 \<le> r \<Longrightarrow> TilePath_loop r path = spec_prefix (nat r) @ path"
proof (induction r path rule: TilePath_loop.induct)
  case (1 remainder path)
  show ?case
  proof (cases "remainder = 0")
    case True
    then show ?thesis
      by (simp add: TilePath_loop.simps [of 0] spec_prefix.simps [of 0])
  next
    case False
    with "1.prems" have pos: "0 < remainder" by simp
    have q: "quot remainder 1000 = remainder div 1000" using "1.prems" by (rule quot_nonneg)
    have r: "rem remainder 1000 = remainder mod 1000" using "1.prems" by (rule rem_nonneg)
    have m: "Sprintf_03d (remainder mod 1000) = pad3 (nat remainder mod 1000)"
      using "1.prems" by (simp add: Sprintf_03d_pad3 nat_mod_distrib)
    have ih: "TilePath_loop (remainder div 1000) (''x'' @ pad3 (nat remainder mod 1000) @ ''/'' @ path)
        = spec_prefix (nat (remainder div 1000)) @ ''x'' @ pad3 (nat remainder mod 1000) @ ''/'' @ path"
      using "1.IH" [OF False] "1.prems" q r m by simp
    have d: "nat (remainder div 1000) = nat remainder div 1000"
      using "1.prems" by (simp add: nat_div_distrib)
    have n0: "nat remainder \<noteq> 0" using pos by simp
    show ?thesis
      using ih n0 False
      by (simp add: TilePath_loop.simps [of remainder] q r m d spec_prefix.simps [of "nat remainder"])
  qed
qed

lemma TilePathFromIndex_spec: "0 \<le> i \<Longrightarrow> TilePathFromIndex i = spec_tile_path (nat i)"
proof -
  assume i: "0 \<le> i"
  have "0 \<le> i div 1000" using i by simp
  then have "TilePath_loop (i div 1000) (pad3 (nat i mod 1000))
      = spec_prefix (nat (i div 1000)) @ pad3 (nat i mod 1000)"
    by (rule TilePath_loop_spec)
  then show ?thesis
    using i by (simp add: TilePathFromIndex_def spec_tile_path_def quot_nonneg rem_nonneg
        Sprintf_03d_pad3 nat_mod_distrib nat_div_distrib)
qed

lemma parse_path_segment:
  "g < 1000 \<Longrightarrow> parse_path acc (''x'' @ pad3 g @ ''/'' @ s) = parse_path (acc * 1000 + g) s"
  by (simp add: pad3_def parse3_pad3)

lemma parse_path_last: "g < 1000 \<Longrightarrow> parse_path acc (pad3 g) = Some (acc * 1000 + g)"
  by (simp add: pad3_def parse3_pad3)

lemma parse_path_prefix: "parse_path 0 (spec_prefix r @ s) = parse_path r s"
proof (induction r arbitrary: s rule: spec_prefix.induct)
  case (1 r)
  show ?case
  proof (cases "r = 0")
    case True
    then show ?thesis by (simp add: spec_prefix.simps [of 0])
  next
    case False
    have "parse_path 0 (spec_prefix r @ s)
        = parse_path 0 (spec_prefix (r div 1000) @ (''x'' @ pad3 (r mod 1000) @ ''/'' @ s))"
      using False by (simp add: spec_prefix.simps [of r])
    also have "\<dots> = parse_path (r div 1000) (''x'' @ pad3 (r mod 1000) @ ''/'' @ s)"
      using "1.IH" [OF False] by blast
    also have "\<dots> = parse_path (r div 1000 * 1000 + r mod 1000) s"
      by (rule parse_path_segment) simp
    finally show ?thesis by simp
  qed
qed

lemma roundtrip: "spec_IndexFromTilePath (spec_tile_path i) = Some i"
  by (simp add: spec_IndexFromTilePath_def spec_tile_path_def parse_path_prefix parse_path_last)

section \<open>Reading the leaves of a tile\<close>

lemma read_entries_take_leaves:
  "read_entries rd n tileData = Inr entries \<longleftrightarrow>
     (\<exists>trailing. take_leaves rd n tileData = Some (entries, trailing))"
proof (induction n arbitrary: tileData entries)
  case 0
  show ?case by auto
next
  case (Suc n)
  show ?case
  proof (cases "rd tileData")
    case (Inl err)
    then show ?thesis by simp
  next
    case (Inr p)
    obtain entry rest where p: "p = (entry, rest)" by (cases p)
    show ?thesis
    proof (cases "read_entries rd n rest")
      case (Inl err)
      then have "\<And>es. \<not> (\<exists>trailing. take_leaves rd n rest = Some (es, trailing))"
        using Suc.IH [of rest] by simp
      then have "take_leaves rd n rest = None"
        by (cases "take_leaves rd n rest") auto
      with Inl Inr p show ?thesis by simp
    next
      case es: (Inr es)
      then obtain trailing where t: "take_leaves rd n rest = Some (es, trailing)"
        using Suc.IH [of rest es] by auto
      with es Inr p show ?thesis by auto
    qed
  qed
qed

lemma read_entries_length: "read_entries rd n tileData = Inr entries \<Longrightarrow> length entries = n"
proof (induction n arbitrary: tileData entries)
  case 0
  then show ?case by simp
next
  case (Suc n)
  then show ?case
    by (auto split: sum.splits prod.splits)
qed

lemma GetTileEntries_length:
  "GetTileEntries env l ctx tileIndex w = (Inr entries, w') \<Longrightarrow> length entries = 256"
  by (auto simp: GetTileEntries_def read_entries_length split: sum.splits prod.splits)

lemma take_leaves_example:
  "take_leaves example_leaf n (replicate n c @ extra) = Some (replicate n (example_entry c), extra)"
  by (induction n) (simp_all add: example_leaf_def example_entry_def)

lemma read_entries_example:
  "read_entries example_leaf n (replicate n c @ extra) = Inr (replicate n (example_entry c))"
  by (simp add: read_entries_take_leaves take_leaves_example)

section \<open>The example log\<close>

lemma example_tile_url:
  "JoinPath (example_env pages cancel_at) (MetricsEndpoint example_log) (''/tile/data/'' @ p)
     = ''https://log.example/tile/data/'' @ p"
  by (simp add: example_env_def example_log_def)

lemma example_RetryWithData:
  "RetryWithData (example_env pages cancel_at) operation bo ctx w =
     example_retry (unat (bo_MaxRetries bo)) operation w"
  by (simp add: example_env_def)

lemma example_fetch_tile_data:
  assumes "\<not> example_cancelled cancel_at w"
  shows "fetch_tile_data (example_env pages cancel_at) example_log ctx tileIndex w =
     (case map_of pages (''https://log.example/tile/data/'' @ TilePathFromIndex tileIndex) of
        None \<Rightarrow> (Inl (New ''unexpected response status: 404 Not Found''), Suc w)
      | Some body \<Rightarrow> (Inr body, Suc w))"
  using assms
  by (simp add: fetch_tile_data_def Let_def example_env_def example_log_def example_Do_def
      tile_body_def split: option.splits)

lemma example_fetch_tile_data_cancelled:
  assumes "example_cancelled cancel_at w"
  shows "fetch_tile_data (example_env pages cancel_at) example_log ctx tileIndex w =
     (Inl (Errorf ''requesting tile'' Canceled), Suc w)"
  using assms
  by (simp add: fetch_tile_data_def Let_def example_env_def example_log_def example_Do_def)

lemma example_paths:
  "TilePathFromIndex 0 = ''000''" "TilePathFromIndex 1 = ''001''"
  "TilePathFromIndex 2 = ''002''" "TilePathFromIndex 3 = ''003''"
  by code_simp+

lemma example_GetTileEntries:
  assumes "\<not> example_cancelled cancel_at w"
  shows
    "GetTileEntries (example_env example_pages cancel_at) example_log ctx 0 w =
       (Inr (replicate 256 (example_entry (CHR ''a''))), Suc w)"
    "GetTileEntries (example_env example_pages cancel_at) example_log ctx 1 w =
       (Inr (replicate 256 (example_entry (CHR ''b''))), Suc w)"
    "GetTileEntries (example_env example_pages cancel_at) example_log ctx 2 w =
       (Inr (replicate 256 (example_entry (CHR ''c''))), Suc w)"
    "GetTileEntries (example_env example_pages cancel_at) example_log ctx 3 w =
       (Inl (New ''unexpected response status: 404 Not Found''), Suc w)"
proof -
  have rd: "ReadTileLeaf (example_env pages cancel_at) = example_leaf" for pages
    by (simp add: example_env_def)
  have r0: "read_entries example_leaf 256 (example_tile c @ extra) = Inr (replicate 256 (example_entry c))"
    for c extra
    unfolding example_tile_def by (rule read_entries_example)
  have r1: "read_entries example_leaf 256 (example_tile c) = Inr (replicate 256 (example_entry c))"
    for c
    using r0 [of c "[]"] by simp
  show "GetTileEntries (example_env example_pages cancel_at) example_log ctx 0 w =
       (Inr (replicate 256 (example_entry (CHR ''a''))), Suc w)"
    by (simp add: GetTileEntries_def example_fetch_tile_data [OF assms] example_paths
        example_pages_def rd r0)
  show "GetTileEntries (example_env example_pages cancel_at) example_log ctx 1 w =
       (Inr (replicate 256 (example_entry (CHR ''b''))), Suc w)"
    by (simp add: GetTileEntries_def example_fetch_tile_data [OF assms] example_paths
        example_pages_def rd r1)
  show "GetTileEntries (example_env example_pages cancel_at) example_log ctx 2 w =
       (Inr (replicate 256 (example_entry (CHR ''c''))), Suc w)"
    by (simp add: GetTileEntries_def example_fetch_tile_data [OF assms] example_paths
        example_pages_def rd r1)
  show "GetTileEntries (example_env example_pages cancel_at) example_log ctx 3 w =
       (Inl (New ''unexpected response status: 404 Not Found''), Suc w)"
    by (simp add: GetTileEntries_def example_fetch_tile_data [OF assms] example_paths
        example_pages_def)
qed


section \<open>The binary search\<close>

lemma quot_pos: "0 \<le> a \<Longrightarrow> 0 < b \<Longrightarrow> quot a b = a div b"
  by (cases "a = 0") (simp_all add: quot_def)

lemma wrap64_int64: "int64 x \<Longrightarrow> wrap64 x = x"
  by (simp add: int64_def wrap64_def)

lemma loop_eq_spec_search:
  assumes "0 \<le> s" and "s \<le> 2 ^ 62" and "- 1 \<le> e" and "e < 2 ^ 62"
  shows "GetTileIndexFromTime_loop env l ctx t s e w =
     Some (spec_search (GetTileEntries env l ctx) t s e w)"
  using assms
proof (induction "nat (e - s + 1)" arbitrary: s e w rule: less_induct)
  case less
  show ?case
  proof (cases "s \<le> e")
    case False
    then show ?thesis
      by (subst GetTileIndexFromTime_loop.simps, subst spec_search.simps) simp
  next
    case True
    define pivot where "pivot = (s + e) div 2"
    have sum: "wrap64 (s + e) = s + e"
      using less.prems True by (intro wrap64_int64) (simp add: int64_def)
    have piv: "quot (wrap64 (s + e)) 2 = pivot"
      using less.prems True by (simp add: sum quot_pos pivot_def)
    have lo: "s \<le> pivot" and hi: "pivot \<le> e"
      using True by (simp_all add: pivot_def)
    have left: "wrap64 (pivot - 1) = pivot - 1"
      using less.prems lo hi by (intro wrap64_int64) (simp add: int64_def)
    have right: "wrap64 (pivot + 1) = pivot + 1"
      using less.prems lo hi by (intro wrap64_int64) (simp add: int64_def)
    have ihl: "GetTileIndexFromTime_loop env l ctx t s (pivot - 1) w' =
        Some (spec_search (GetTileEntries env l ctx) t s (pivot - 1) w')" for w'
      using less.prems lo hi by (intro less.hyps) simp_all
    have ihr: "GetTileIndexFromTime_loop env l ctx t (pivot + 1) e w' =
        Some (spec_search (GetTileEntries env l ctx) t (pivot + 1) e w')" for w'
      using less.prems lo hi by (intro less.hyps) simp_all
    obtain r w' where g: "GetTileEntries env l ctx pivot w = (r, w')"
      by (cases "GetTileEntries env l ctx pivot w")
    show ?thesis
    proof (cases r)
      case (Inl err)
      with True g show ?thesis
        by (subst GetTileIndexFromTime_loop.simps, subst spec_search.simps)
          (simp add: piv pivot_def [symmetric])
    next
      case (Inr tileEntries)
      with True g show ?thesis
        by (subst GetTileIndexFromTime_loop.simps, subst spec_search.simps)
          (simp add: piv pivot_def [symmetric] left right ihl ihr Before_def After_def)
    qed
  qed
qed

lemma GetTileIndexFromTime_spec_search:
  assumes "0 \<le> startTile" and "endTile < 2 ^ 62"
  shows "GetTileIndexFromTime env l ctx t startTile endTile w =
     Some (spec_search (GetTileEntries env l ctx) t startTile endTile w)"
proof (cases "startTile \<le> endTile")
  case True
  with assms have "GetTileIndexFromTime_loop env l ctx t startTile endTile w =
     Some (spec_search (GetTileEntries env l ctx) t startTile endTile w)"
    by (intro loop_eq_spec_search) simp_all
  with assms show ?thesis by (simp add: GetTileIndexFromTime_def)
next
  case False
  then have "GetTileIndexFromTime_loop env l ctx t startTile endTile w =
     Some (spec_search (GetTileEntries env l ctx) t startTile endTile w)"
    by (subst GetTileIndexFromTime_loop.simps, subst spec_search.simps) simp
  with assms show ?thesis by (simp add: GetTileIndexFromTime_def)
qed

lemma spec_search_bounds:
  "spec_search fetch t low high w = (Inr p, w') \<Longrightarrow> low \<le> p \<and> p \<le> high"
proof (induction fetch t low high w rule: spec_search.induct)
  case (1 fetch t low high w)
  show ?case
  proof (cases "high < low")
    case True
    with "1.prems" show ?thesis by (simp add: spec_search.simps [of fetch t low high w])
  next
    case False
    obtain r w1 where g: "fetch ((low + high) div 2) w = (r, w1)"
      by (cases "fetch ((low + high) div 2) w")
    show ?thesis
    proof (cases r)
      case (Inl err)
      with False g "1.prems" show ?thesis
        by (simp add: spec_search.simps [of fetch t low high w])
    next
      case (Inr tileEntries)
      consider (left) "t < UnixMilli (Timestamp (tileEntries ! 0))"
        | (right) "\<not> t < UnixMilli (Timestamp (tileEntries ! 0))"
            "UnixMilli (Timestamp (tileEntries ! 255)) < t"
        | (found) "\<not> t < UnixMilli (Timestamp (tileEntries ! 0))"
            "\<not> UnixMilli (Timestamp (tileEntries ! 255)) < t"
        by blast
      then show ?thesis
      proof cases
        case left
        then have "spec_search fetch t low ((low + high) div 2 - 1) w1 = (Inr p, w')"
          using False g Inr "1.prems" by (simp add: spec_search.simps [of fetch t low high w])
        then have "low \<le> p \<and> p \<le> (low + high) div 2 - 1"
          using "1.IH"(1) [OF False g [symmetric] Inr left] by simp
        with False show ?thesis by linarith
      next
        case right
        then have "spec_search fetch t ((low + high) div 2 + 1) high w1 = (Inr p, w')"
          using False g Inr "1.prems" by (simp add: spec_search.simps [of fetch t low high w])
        then have "(low + high) div 2 + 1 \<le> p \<and> p \<le> high"
          using "1.IH"(2) [OF False g [symmetric] Inr right] by simp
        with False show ?thesis by linarith
      next
        case found
        then have "p = (low + high) div 2"
          using False g Inr "1.prems" by (simp add: spec_search.simps [of fetch t low high w])
        with False show ?thesis by linarith
      qed
    qed
  qed
qed

section \<open>Searching the example log\<close>

lemma TreeSizeFromCheckpoint_range:
  "TreeSizeFromCheckpoint checkpoint = Inr n \<Longrightarrow> 0 \<le> n \<and> n < 2 ^ 63"
  using TreeSizeFromCheckpoint_cases [of checkpoint]
  by (cases "wellformed_checkpoint checkpoint") (auto simp: wellformed_checkpoint_def)

lemma GetLastFullTileIndex_range:
  assumes "GetLastFullTileIndex env l ctx w = (Inr lastTile, w')"
  shows "0 \<le> lastTile \<and> lastTile < 2 ^ 55"
proof -
  from assms obtain n where n: "0 \<le> n" "n < 2 ^ 63" and q: "lastTile = quot n 256"
    by (auto simp: GetLastFullTileIndex_def Let_def
        split: option.splits prod.splits sum.splits if_splits
        dest: TreeSizeFromCheckpoint_range)
  have "quot n 256 = n div 256" using n by (simp add: quot_pos)
  moreover have "n div 256 \<le> 9223372036854775807 div 256"
    using n by (intro zdiv_mono1) simp_all
  moreover have "0 \<le> n div 256" using n by simp
  ultimately show ?thesis using q by simp
qed

lemma example_TreeSize:
  "TreeSizeFromCheckpoint (example_checkpoint ''1000'' ''signature'') = Inr 1000"
proof -
  have can: "canonical_decimal ''1000''"
    by (simp add: canonical_decimal_def is_digit_def digit_val_def)
  have val: "decimal_value ''1000'' = 1000"
    by (simp add: decimal_value_def decimal_from_def digit_val_def)
  have wf: "wellformed_checkpoint (example_checkpoint ''1000'' ''signature'')"
    by (simp add: example_checkpoint_wellformed [OF can] val)
  have l: "second_line (example_checkpoint ''1000'' ''signature'') = ''1000''"
    by (rule example_checkpoint_line1) (simp add: LF_def)
  show ?thesis
    using TreeSizeFromCheckpoint_cases [of "example_checkpoint ''1000'' ''signature''"] wf
    by (simp add: l val)
qed

lemma example_GetLastFullTileIndex:
  assumes "\<not> example_cancelled cancel_at w"
  shows "GetLastFullTileIndex (example_env example_pages cancel_at) example_log ctx w =
     (Inr 3, Suc w)"
proof -
  have q: "quot 1000 256 = 3" by (simp add: quot_def)
  show ?thesis
    using assms
    by (simp add: GetLastFullTileIndex_def Let_def example_env_def example_log_def
        example_Do_def example_pages_def example_TreeSize q)
qed

lemma UnixMilli_less: "UnixMilli a < UnixMilli b \<longleftrightarrow> a < b"
  by (simp add: UnixMilli_def)

lemma example_timestamps:
  "Timestamp (replicate 256 (example_entry c) ! 0) = of_char c"
  "Timestamp (replicate 256 (example_entry c) ! 255) = of_char c"
  by (simp_all add: example_entry_def)

lemma example_cancelled_mono:
  "\<not> example_cancelled cancel_at (Suc w) \<Longrightarrow> \<not> example_cancelled cancel_at w"
  by (auto simp: example_cancelled_def split: option.splits)

lemma example_search_99:
  assumes "\<not> example_cancelled cancel_at (Suc w)"
  shows "spec_search (GetTileEntries (example_env example_pages cancel_at) example_log ctx)
      (UnixMilli 99) 0 3 w = (Inr 2, Suc (Suc w))"
proof -
  let ?f = "GetTileEntries (example_env example_pages cancel_at) example_log ctx"
  note nc1 = assms
  note nc0 = example_cancelled_mono [OF assms]
  have two: "spec_search ?f (UnixMilli 99) 2 3 (Suc w) = (Inr 2, Suc (Suc w))"
    by (subst spec_search.simps)
      (simp add: example_GetTileEntries [OF nc1] example_timestamps example_entry_def UnixMilli_less)
  show ?thesis
    by (subst spec_search.simps)
      (simp add: example_GetTileEntries [OF nc0] example_timestamps example_entry_def
        UnixMilli_less two)
qed

lemma example_search_97:
  assumes "\<not> example_cancelled cancel_at (Suc w)"
  shows "spec_search (GetTileEntries (example_env example_pages cancel_at) example_log ctx)
      (UnixMilli 97) 0 3 w = (Inr 0, Suc (Suc w))"
proof -
  let ?f = "GetTileEntries (example_env example_pages cancel_at) example_log ctx"
  note nc1 = assms
  note nc0 = example_cancelled_mono [OF assms]
  have zero: "spec_search ?f (UnixMilli 97) 0 0 (Suc w) = (Inr 0, Suc (Suc w))"
    by (subst spec_search.simps)
      (simp add: example_GetTileEntries [OF nc1] example_timestamps example_entry_def UnixMilli_less)
  show ?thesis
    by (subst spec_search.simps)
      (simp add: example_GetTileEntries [OF nc0] example_timestamps example_entry_def
        UnixMilli_less zero)
qed

lemma example_bounds:
  assumes "\<not> example_cancelled cancel_at (Suc (Suc (Suc (Suc w))))"
  shows "GetBoundingTilesFromTimes (example_env example_pages cancel_at) example_log ctx
      (UnixMilli 97) (UnixMilli 99) w = Some (Inr (0, 2), Suc (Suc (Suc (Suc (Suc w)))))"
proof -
  note nc4 = assms
  note nc3 = example_cancelled_mono [OF nc4]
  note nc2 = example_cancelled_mono [OF nc3]
  note nc1 = example_cancelled_mono [OF nc2]
  note nc0 = example_cancelled_mono [OF nc1]
  let ?env = "example_env example_pages cancel_at"
  have a: "GetTileIndexFromTime ?env example_log ctx (UnixMilli 97) 0 3 (Suc w) =
      Some (Inr 0, Suc (Suc (Suc w)))"
    by (simp add: GetTileIndexFromTime_spec_search example_search_97 [OF nc2])
  have b: "GetTileIndexFromTime ?env example_log ctx (UnixMilli 99) 0 3 (Suc (Suc (Suc w))) =
      Some (Inr 2, Suc (Suc (Suc (Suc (Suc w)))))"
    by (simp add: GetTileIndexFromTime_spec_search example_search_99 [OF nc4])
  show ?thesis
    by (simp add: GetBoundingTilesFromTimes_def Before_def UnixMilli_less
        example_GetLastFullTileIndex [OF nc0] a b)
qed


section \<open>The consumer loop and the exact cacher\<close>

lemma consumer_loop_Nil [simp]: "consumer_loop lib s [] st = st"
  by (simp add: consumer_loop_def)

lemma consumer_loop_snoc:
  "consumer_loop lib s (delivered @ [certBytes]) st =
     receive lib s certBytes (consumer_loop lib s delivered st)"
  by (simp add: consumer_loop_def)







section \<open>A search that continues after the error of a source\<close>

lemma receive_same_consumer:
  "same_consumer st st' \<Longrightarrow> same_consumer (receive lib s b st) (receive lib s b st')"
  by (auto simp: same_consumer_def receive_def Let_def split: sum.splits prod.splits)

lemma receive_received: "received (receive lib s b st) = received st @ [b]"
  by (auto simp: receive_def Let_def split: sum.splits prod.splits)

lemma receive_frame:
  "cause (receive lib s b st) = cause st"
  "running (receive lib s b st) = running st"
  "certs (receive lib s b st) = certs st"
  "closed (receive lib s b st) = closed st"
  "returned (receive lib s b st) = returned st"
  by (auto simp: receive_def Let_def split: sum.splits prod.splits)

lemma same_consumer_certs: "same_consumer (st\<lparr>certs := cs\<rparr>) st' = same_consumer st st'"
  by (simp add: same_consumer_def)

lemma step_continue_inv:
  assumes cont: "DataSourceErrorBehavior s = ErrorBehaviorContinue"
    and ev: "\<not> is_CancelParent ev"
    and inv: "continue_inv lib s st0 sent st"
    and step: "step lib s ev st = Some st'"
  shows "continue_inv lib s st0 (sent @ sends [ev]) st'"
proof (cases ev)
  case (Send b)
  with inv step show ?thesis
    by (auto simp: continue_inv_def same_consumer_def split: if_splits)
next
  case (SourceReturns result)
  with inv step cont show ?thesis
    by (cases result) (auto simp: continue_inv_def same_consumer_def split: if_splits)
next
  case CloseCerts
  with inv step show ?thesis
    by (auto simp: continue_inv_def same_consumer_def split: if_splits)
next
  case (CancelParent err)
  with ev show ?thesis by simp
next
  case Receive
  show ?thesis
  proof (cases "certs st")
    case Nil
    with Receive inv step show ?thesis
      by (auto simp: continue_inv_def same_consumer_def split: if_splits)
  next
    case (Cons b rest)
    with Receive step have st': "st' = receive lib s b (st\<lparr>certs := rest\<rparr>)"
      and nr: "returned st = None"
      by (auto split: if_splits)
    have sc: "same_consumer (st\<lparr>certs := rest\<rparr>) (consumer_loop lib s (received st) st0)"
      using inv by (simp add: continue_inv_def same_consumer_certs)
    have "same_consumer st' (receive lib s b (consumer_loop lib s (received st) st0))"
      unfolding st' using sc by (rule receive_same_consumer)
    then have "same_consumer st' (consumer_loop lib s (received st') st0)"
      by (simp add: st' receive_received consumer_loop_snoc)
    moreover have "received st' @ certs st' = sent"
      using inv Cons by (simp add: st' receive_received receive_frame continue_inv_def)
    moreover have "cause st' = None" "returned st' = None"
      using inv nr by (simp_all add: st' receive_frame continue_inv_def)
    ultimately show ?thesis
      using Receive by (simp add: continue_inv_def)
  qed
next
  case Done
  with inv step show ?thesis
    by (auto simp: continue_inv_def split: if_splits option.splits)
qed

lemma sends_append: "sends (evs @ evs') = sends evs @ sends evs'"
  by (induction evs rule: sends.induct) simp_all

lemma run_continue_inv:
  assumes cont: "DataSourceErrorBehavior s = ErrorBehaviorContinue"
  shows "\<not> list_ex is_CancelParent evs \<Longrightarrow> continue_inv lib s st0 sent st \<Longrightarrow>
    run lib s evs st = Some st' \<Longrightarrow> continue_inv lib s st0 (sent @ sends evs) st'"
proof (induction evs arbitrary: sent st)
  case Nil
  then show ?case by simp
next
  case (Cons ev evs)
  from Cons.prems(3) obtain st1 where s1: "step lib s ev st = Some st1"
    and r: "run lib s evs st1 = Some st'"
    by (auto split: option.splits)
  from Cons.prems(1) have nev: "\<not> is_CancelParent ev" and nevs: "\<not> list_ex is_CancelParent evs"
    by simp_all
  have "continue_inv lib s st0 (sent @ sends [ev]) st1"
    using cont nev Cons.prems(2) s1 by (rule step_continue_inv)
  then have "continue_inv lib s st0 ((sent @ sends [ev]) @ sends evs) st'"
    using nevs r by (intro Cons.IH)
  moreover have "sends (ev # evs) = sends [ev] @ sends evs"
    using sends_append [of "[ev]" evs] by simp
  ultimately show ?case by simp
qed

lemma start_continue_inv:
  assumes "Execute_start s ctx_err = Inr st0"
  shows "continue_inv lib s st0 [] st0"
  using assms
  by (auto simp: Execute_start_def continue_inv_def same_consumer_def
      split: option.splits)

section \<open>C1: one call of the callback for every fingerprint\<close>




section \<open>C2: a cancelled context and the tiled log data source\<close>

lemma send_entries_example:
  "send_entries example_source (replicate n (example_entry c)) = replicate n [c]"
  by (induction n) (simp_all add: example_source_def example_entry_def)

lemma example_backoff_cancelled:
  assumes "example_cancelled cancel_at w"
  shows "GetTileEntriesWithBackoff (example_env example_pages cancel_at) example_log ctx tileIndex w =
     (Inl (Errorf ''requesting tile'' Canceled), Suc (Suc w))"
proof -
  have c1: "example_cancelled cancel_at (Suc w)"
    using assms by (auto simp: example_cancelled_def split: option.splits)
  have g: "GetTileEntries (example_env example_pages cancel_at) example_log ctx tileIndex v =
      (Inl (Errorf ''requesting tile'' Canceled), Suc v)" if "example_cancelled cancel_at v" for v
    using that by (simp add: GetTileEntries_def example_fetch_tile_data_cancelled)
  have v: "Validate (TileRetry example_log) = None"
    by (simp add: example_log_def Validate_def)
  have r: "unat (bo_MaxRetries (createBackoff (TileRetry example_log))) = Suc 0"
    by (simp add: createBackoff_def example_log_def)
  show ?thesis
    by (simp add: GetTileEntriesWithBackoff_def Let_def v)
      (simp add: example_RetryWithData r g [OF assms] g [OF c1])
qed

lemma example_backoff_tile0:
  assumes "\<not> example_cancelled cancel_at w"
  shows "GetTileEntriesWithBackoff (example_env example_pages cancel_at) example_log ctx 0 w =
     (Inr (replicate 256 (example_entry (CHR ''a''))), Suc w)"
proof -
  have v: "Validate (TileRetry example_log) = None"
    by (simp add: example_log_def Validate_def)
  have r: "unat (bo_MaxRetries (createBackoff (TileRetry example_log))) = Suc 0"
    by (simp add: createBackoff_def example_log_def)
  show ?thesis
    by (simp add: GetTileEntriesWithBackoff_def Let_def v)
      (simp add: example_RetryWithData r example_GetTileEntries(1) [OF assms])
qed

lemma Source_nil_after_bounds:
  assumes "Log b = Some l" and "IncludeCertificates b \<or> IncludePrecertificates b"
    and "GetBoundingTilesFromTimes env l ctx (StartTimeInclusive b) (EndTimeInclusive b) w =
      Some (Inr (startIndex, endIndex), w1)"
  shows "\<exists>sent lines w2. Source env b ctx w = Some (None, sent, lines, w2)"
  using assms by (auto simp: Source_def split: prod.splits)

text \<open>
  C2 fails on the code. Once the bounds are found \<^verbatim>\<open>Source\<close> returns \<^verbatim>\<open>nil\<close>, whatever
  the requests for the tiles do (\<open>Source_nil_after_bounds\<close>). The example log is searched with a context that is cancelled
  after six requests: the bounds are found with five requests, tile 0 is fetched, and
  the requests for the tiles 1 and 2 fail with the context's error. Each failure is
  written to the diagnostic stream and the tile is skipped; \<^verbatim>\<open>Source\<close> returns \<^verbatim>\<open>nil\<close>
  (\<open>None\<close>), not the context's error.
\<close>

theorem Source_cancelled_returns_nil:
  "Source (example_env example_pages (Some 6)) example_source 0 0 =
     Some (None, replicate 256 ''a'',
       [''determined search bounds, start tile: 0 end tile: 2'',
        ''getting entries for tile: requesting tile: context canceled'',
        ''getting entries for tile: requesting tile: context canceled''],
       10)"
proof -
  let ?env = "example_env example_pages (Some 6)"
  have nc4: "\<not> example_cancelled (Some 6) (Suc (Suc (Suc (Suc 0))))"
    by (simp add: example_cancelled_def)
  have b: "GetBoundingTilesFromTimes ?env example_log 0 (UnixMilli 97) (UnixMilli 99) 0 =
      Some (Inr (0, 2), 5)"
    using example_bounds [OF nc4, of 0] by (simp add: eval_nat_numeral)
  have nc5: "\<not> example_cancelled (Some 6) 5" by (simp add: example_cancelled_def)
  have c6: "example_cancelled (Some 6) 6" by (simp add: example_cancelled_def)
  have c8: "example_cancelled (Some 6) 8" by (simp add: example_cancelled_def)
  have t0: "GetTileEntriesWithBackoff ?env example_log 0 0 5 =
      (Inr (replicate 256 (example_entry (CHR ''a''))), 6)"
    using example_backoff_tile0 [OF nc5, of 0] by simp
  have t1: "GetTileEntriesWithBackoff ?env example_log 0 1 6 =
      (Inl (Errorf ''requesting tile'' Canceled), 8)"
    using example_backoff_cancelled [OF c6, of 0 1] by simp
  have t2: "GetTileEntriesWithBackoff ?env example_log 0 2 8 =
      (Inl (Errorf ''requesting tile'' Canceled), 10)"
    using example_backoff_cancelled [OF c8, of 0 2] by simp
  have w: "workers ?env example_source example_log 0 [0, 1, 2] 5 =
      (replicate 256 ''a'',
       [''getting entries for tile: requesting tile: context canceled'',
        ''getting entries for tile: requesting tile: context canceled''], 10)"
    by (simp add: t0 t1 t2 send_entries_example)
  have u: "[0..2::int] = [0, 1, 2]" by (simp add: upto_rec1)
  have f0: "FormatInt 0 = ''0''" by code_simp
  have f2: "FormatInt 2 = ''2''" by code_simp
  have src: "Log example_source = Some example_log"
    "IncludeCertificates example_source" "StartTimeInclusive example_source = UnixMilli 97"
    "EndTimeInclusive example_source = UnixMilli 99"
    by (simp_all add: example_source_def)
  have "Source ?env example_source 0 0 =
      (case workers ?env example_source example_log 0 [0..2] 5 of
         (sent, lines, w2) \<Rightarrow>
           Some (None, sent,
             (''determined search bounds, start tile: '' @ FormatInt 0 @
              '' end tile: '' @ FormatInt 2) # lines, w2))"
    by (simp add: Source_def src b)
  then show ?thesis
    unfolding u w f0 f2 by simp
qed


section \<open>C3: the error of a data source under the policy to continue\<close>

text \<open>
  C3, as amended. Under \<^verbatim>\<open>ErrorBehaviorContinue\<close>, in every state a search reaches
  without a cancellation from outside: the return of a data source with an error is the
  same step as its return without one, so the error is discarded and nothing is written
  for it; the shared context is not cancelled; what the data sources sent is received
  or waits in the channel, and the callback has been called, and the diagnostic stream
  written, as the consumer loop does on what was received; \<^verbatim>\<open>Execute\<close> has returned
  nothing but \<^verbatim>\<open>nil\<close>, and once the channel is closed and empty its next step is to
  return \<^verbatim>\<open>nil\<close>.
\<close>

theorem Execute_Continue_discards_source_error:
  assumes "DataSourceErrorBehavior s = ErrorBehaviorContinue"
    and "Execute_start s None = Inr st0"
    and "\<not> list_ex is_CancelParent evs"
    and "run lib s evs st0 = Some st"
  shows "step lib s (SourceReturns (Some err)) st = step lib s (SourceReturns None) st \<and>
    cause st = None \<and>
    received st @ certs st = sends evs \<and>
    callbacks st = callbacks (consumer_loop lib s (received st) st0) \<and>
    stderr st = stderr (consumer_loop lib s (received st) st0) \<and>
    (returned st = None \<or> returned st = Some None) \<and>
    (if closed st \<and> certs st = [] \<and> returned st = None
     then step lib s Receive st = Some (st\<lparr>returned := Some None\<rparr>) \<and> step lib s Done st = None
     else True)"
proof -
  have "continue_inv lib s st0 [] st0"
    using assms(2) by (rule start_continue_inv)
  with assms(1,3) have "continue_inv lib s st0 ([] @ sends evs) st"
    using assms(4) by (rule run_continue_inv)
  then have inv: "cause st = None" "returned st = None \<or> returned st = Some None"
    "same_consumer st (consumer_loop lib s (received st) st0)"
    "received st @ certs st = sends evs"
    by (simp_all add: continue_inv_def)
  have same: "step lib s (SourceReturns (Some err)) st = step lib s (SourceReturns None) st"
    using assms(1) by simp
  have fin: "step lib s Receive st = Some (st\<lparr>returned := Some None\<rparr>) \<and> step lib s Done st = None"
    if "closed st \<and> certs st = [] \<and> returned st = None"
    using that inv(1) by simp
  from inv same fin show ?thesis
    by (simp add: same_consumer_def)
qed

theorem Execute_Continue_discards_source_error_witness:
  "DataSourceErrorBehavior example_search = ErrorBehaviorContinue \<and>
   Execute_start example_search None = Inr example_start \<and>
   run example_crypto example_search
     [Send ''0A'', SourceReturns (Some (New ''not implemented'')), Receive, Send ''0B'',
      Receive, SourceReturns None, CloseCerts, Receive] example_start =
   Some \<lparr>matches = Sha256MapCacher [''0A'' \<mapsto> True, ''0B'' \<mapsto> True],
         callbacks = [example_cert ''0A'', example_cert ''0B''], stderr = [], cause = None,
         running = 0, certs = [], closed = True, received = [''0A'', ''0B''],
         returned = Some None\<rparr> \<and>
   sends [Send ''0A'', SourceReturns (Some (New ''not implemented'')), Receive, Send ''0B'',
      Receive, SourceReturns None, CloseCerts, Receive] = [''0A'', ''0B''] \<and>
   callbacks (consumer_loop example_crypto example_search [''0A'', ''0B''] example_start) =
     [example_cert ''0A'', example_cert ''0B'']"
proof -
  let ?evs = "[Send ''0A'', SourceReturns (Some (New ''not implemented'')), Receive, Send ''0B'',
      Receive, SourceReturns None, CloseCerts, Receive]"
  let ?st = "\<lparr>matches = Sha256MapCacher [''0A'' \<mapsto> True, ''0B'' \<mapsto> True],
         callbacks = [example_cert ''0A'', example_cert ''0B''], stderr = [], cause = None,
         running = 0, certs = [], closed = True, received = [''0A'', ''0B''],
         returned = Some None\<rparr> :: unit state"
  have cont: "DataSourceErrorBehavior example_search = ErrorBehaviorContinue"
    by (simp add: example_search_def)
  have start: "Execute_start example_search None = Inr example_start"
    by (simp add: Execute_start_def ValidateParameters_def example_search_def example_start_def)
  have nc: "\<not> list_ex is_CancelParent ?evs" by simp
  have r: "run example_crypto example_search ?evs example_start = Some ?st"
    by (simp add: receive_def derFilter_def filter_in_force_def
        example_search_def example_crypto_def example_parse_def example_start_def
        example_cert_def NewSha256MapCacher_def Let_def)
  note t = Execute_Continue_discards_source_error [OF cont start nc r]
  from t have "received ?st @ certs ?st = sends ?evs" by blast
  then have s: "sends ?evs = [''0A'', ''0B'']" by simp
  from t have "callbacks ?st = callbacks (consumer_loop example_crypto example_search
      (received ?st) example_start)" by blast
  then have c: "callbacks (consumer_loop example_crypto example_search [''0A'', ''0B'']
      example_start) = [example_cert ''0A'', example_cert ''0B'']" by simp
  from cont start r s c show ?thesis by blast
qed

text \<open>
  The claim as it was stated fails in what it says of the diagnostic stream: the error
  is written only under \<^verbatim>\<open>ErrorBehaviorCancel\<close>. In the example search, which
  continues, a data source returns an error and nothing is written.
\<close>

theorem Execute_Continue_error_not_logged_counterexample:
  "DataSourceErrorBehavior example_search = ErrorBehaviorContinue \<and>
   Execute_start example_search None = Inr example_start \<and>
   map_option stderr
     (run example_crypto example_search [SourceReturns (Some (New ''not implemented''))]
        example_start) = Some []"
  by (simp add: Execute_start_def ValidateParameters_def example_search_def example_start_def)


section \<open>C4: which checkpoints are rejected\<close>

text \<open>
  C4, as amended. \<^verbatim>\<open>TreeSizeFromCheckpoint\<close> returns the tree size written on the
  second line exactly for the texts that have at least three line feeds, are at most
  1000000 bytes long (the constant \<^verbatim>\<open>1e6\<close> of the code, not \<open>2 ^ 20\<close>), whose second line
  is a canonical non-negative decimal below \<open>2 ^ 63\<close> (the range of \<^verbatim>\<open>int64\<close>), and
  whose third line decodes from base64 to exactly 32 bytes; it returns an error for
  every other text.
\<close>

theorem TreeSizeFromCheckpoint_accepts_iff_wellformed:
  "if wellformed_checkpoint text
   then TreeSizeFromCheckpoint text = Inr (int (decimal_value (second_line text)))
   else isl (TreeSizeFromCheckpoint text)"
  using TreeSizeFromCheckpoint_cases [of "text"] by (cases "wellformed_checkpoint text") auto

theorem TreeSizeFromCheckpoint_accepts_iff_wellformed_witness:
  "TreeSizeFromCheckpoint (example_checkpoint ''256'' ''signature'') = Inr 256 \<and>
   isl (TreeSizeFromCheckpoint (example_checkpoint ''0256'' ''signature''))"
proof -
  have can: "canonical_decimal ''256''"
    by (simp add: canonical_decimal_def is_digit_def digit_val_def)
  have val: "decimal_value ''256'' = 256"
    by (simp add: decimal_value_def decimal_from_def digit_val_def)
  have wf: "wellformed_checkpoint (example_checkpoint ''256'' ''signature'')"
    by (simp add: example_checkpoint_wellformed [OF can] val)
  have l1: "second_line (example_checkpoint ''256'' ''signature'') = ''256''"
    by (rule example_checkpoint_line1) (simp add: LF_def)
  have l1': "second_line (example_checkpoint ''0256'' ''signature'') = ''0256''"
    by (rule example_checkpoint_line1) (simp add: LF_def)
  have nwf: "\<not> wellformed_checkpoint (example_checkpoint ''0256'' ''signature'')"
    unfolding wellformed_checkpoint_def l1' by (simp add: canonical_decimal_def)
  show ?thesis
    using TreeSizeFromCheckpoint_accepts_iff_wellformed [of "example_checkpoint ''256'' ''signature''"]
      TreeSizeFromCheckpoint_accepts_iff_wellformed [of "example_checkpoint ''0256'' ''signature''"]
      wf nwf
    by (simp add: l1 val)
qed

text \<open>
  The claim as it was stated fails twice. A text of 1000065 bytes is not larger than
  1 MiB, has three line feeds, the canonical decimal 256 on its second line and 32
  bytes in base64 on its third, and is rejected; so is a text whose second line is the
  canonical decimal of \<open>2 ^ 63\<close>.
\<close>

theorem TreeSizeFromCheckpoint_one_MiB_counterexample:
  "(3 \<le> Count oversize_checkpoint LF \<and> length oversize_checkpoint \<le> 2 ^ 20 \<and>
    canonical_decimal (second_line oversize_checkpoint) \<and>
    decodes_to_32_bytes (third_line oversize_checkpoint) \<and>
    isl (TreeSizeFromCheckpoint oversize_checkpoint)) \<and>
   (3 \<le> Count huge_checkpoint LF \<and> length huge_checkpoint \<le> 2 ^ 20 \<and>
    canonical_decimal (second_line huge_checkpoint) \<and>
    decodes_to_32_bytes (third_line huge_checkpoint) \<and>
    isl (TreeSizeFromCheckpoint huge_checkpoint))"
proof -
  have can: "canonical_decimal ''256''"
    by (simp add: canonical_decimal_def is_digit_def digit_val_def)
  have lf: "LF \<notin> set ''256''" by (simp add: LF_def)
  have nwf: "\<not> wellformed_checkpoint oversize_checkpoint"
    by (simp add: oversize_checkpoint_def example_checkpoint_wellformed [OF can])
  have a: "isl (TreeSizeFromCheckpoint oversize_checkpoint)"
    using TreeSizeFromCheckpoint_cases [of oversize_checkpoint] nwf by simp
  have b: "length oversize_checkpoint \<le> 2 ^ 20"
    by (simp add: oversize_checkpoint_def example_checkpoint_length)
  have first: "3 \<le> Count oversize_checkpoint LF \<and> length oversize_checkpoint \<le> 2 ^ 20 \<and>
      canonical_decimal (second_line oversize_checkpoint) \<and>
      decodes_to_32_bytes (third_line oversize_checkpoint) \<and>
      isl (TreeSizeFromCheckpoint oversize_checkpoint)"
    using a b can example_root_hash_decodes
    by (simp add: oversize_checkpoint_def example_checkpoint_Count
        example_checkpoint_line1 [OF lf] example_checkpoint_line2 [OF lf])
  have can': "canonical_decimal ''9223372036854775808''"
    by (simp add: canonical_decimal_def is_digit_def digit_val_def)
  have lf': "LF \<notin> set ''9223372036854775808''" by (simp add: LF_def)
  have val: "decimal_value ''9223372036854775808'' = 9223372036854775808"
    by (simp add: decimal_value_def decimal_from_def digit_val_def)
  have nwf': "\<not> wellformed_checkpoint huge_checkpoint"
    by (simp add: huge_checkpoint_def example_checkpoint_wellformed [OF can'] val)
  have a': "isl (TreeSizeFromCheckpoint huge_checkpoint)"
    using TreeSizeFromCheckpoint_cases [of huge_checkpoint] nwf' by simp
  have second: "3 \<le> Count huge_checkpoint LF \<and> length huge_checkpoint \<le> 2 ^ 20 \<and>
      canonical_decimal (second_line huge_checkpoint) \<and>
      decodes_to_32_bytes (third_line huge_checkpoint) \<and>
      isl (TreeSizeFromCheckpoint huge_checkpoint)"
    using a' can' example_root_hash_decodes
    by (simp add: huge_checkpoint_def example_checkpoint_Count example_checkpoint_length
        example_checkpoint_line1 [OF lf'] example_checkpoint_line2 [OF lf'])
  from first second show ?thesis ..
qed


section \<open>C5: the path of a tile index\<close>

text \<open>
  C5. For every non-negative tile index \<open>I\<close>, \<^verbatim>\<open>TilePathFromIndex(I)\<close> is the path
  the specification describes (the three least significant decimal digits as the
  zero-padded last segment, one \<open>xDDD/\<close> segment before it for every higher group of
  three digits), and reading the path back gives \<open>I\<close>. Index 0 gives \<open>000\<close>, 1000 gives
  \<open>x001/000\<close> and 1000000 gives \<open>x001/x000/000\<close>.
\<close>

theorem TilePathFromIndex_roundtrip:
  assumes "0 \<le> I"
  shows "TilePathFromIndex I = spec_tile_path (nat I) \<and>
    spec_IndexFromTilePath (TilePathFromIndex I) = Some (nat I) \<and>
    TilePathFromIndex 0 = ''000'' \<and>
    TilePathFromIndex 1000 = ''x001/000'' \<and>
    TilePathFromIndex 1000000 = ''x001/x000/000''"
proof -
  have p: "TilePathFromIndex I = spec_tile_path (nat I)"
    using assms by (rule TilePathFromIndex_spec)
  have r: "spec_IndexFromTilePath (TilePathFromIndex I) = Some (nat I)"
    unfolding p by (rule roundtrip)
  have e0: "TilePathFromIndex 0 = ''000''" by code_simp
  have e1: "TilePathFromIndex 1000 = ''x001/000''" by code_simp
  have e2: "TilePathFromIndex 1000000 = ''x001/x000/000''" by code_simp
  from p r e0 e1 e2 show ?thesis by simp
qed

theorem TilePathFromIndex_roundtrip_witness:
  "(0::int) \<le> 1234567 \<and> TilePathFromIndex 1234567 = ''x001/x234/567'' \<and>
   spec_tile_path 1234567 = ''x001/x234/567'' \<and>
   spec_IndexFromTilePath ''x001/x234/567'' = Some 1234567"
proof -
  have h: "(0::int) \<le> 1234567" by simp
  have e: "TilePathFromIndex 1234567 = ''x001/x234/567''" by code_simp
  note t = TilePathFromIndex_roundtrip [OF h]
  from t have "TilePathFromIndex 1234567 = spec_tile_path (nat 1234567)"
    by (rule conjunct1)
  then have a: "spec_tile_path 1234567 = ''x001/x234/567''"
    by (simp add: e)
  from t have "spec_IndexFromTilePath (TilePathFromIndex 1234567) = Some (nat 1234567)"
    by (rule conjunct1 [OF conjunct2])
  then have b: "spec_IndexFromTilePath ''x001/x234/567'' = Some 1234567"
    by (simp add: e)
  from h e a b show ?thesis by simp
qed


section \<open>C6: the bounding tiles are in order\<close>

text \<open>
  C6. \<^verbatim>\<open>GetBoundingTilesFromTimes\<close> always returns, and whenever it returns a pair of
  tiles without an error the start tile is not negative and not after the end tile: the
  second search is bounded below by the tile the first one found. A result without an
  error is only returned when the start time is strictly before the end time.
\<close>

theorem GetBoundingTilesFromTimes_monotone:
  "GetBoundingTilesFromTimes env l ctx startTime endTime w \<noteq> None \<and>
   (GetBoundingTilesFromTimes env l ctx startTime endTime w = Some (Inr (startTile, endTile), w')
      \<longrightarrow> startTime < endTime \<and> 0 \<le> startTile \<and> startTile \<le> endTile)"
proof (cases "Before startTime endTime")
  case False
  then show ?thesis by (simp add: GetBoundingTilesFromTimes_def)
next
  case True
  obtain r w1 where last: "GetLastFullTileIndex env l ctx w = (r, w1)"
    by (cases "GetLastFullTileIndex env l ctx w")
  show ?thesis
  proof (cases r)
    case (Inl err)
    with True last show ?thesis by (simp add: GetBoundingTilesFromTimes_def)
  next
    case (Inr lastTile)
    with last have range: "0 \<le> lastTile \<and> lastTile < 2 ^ 55"
      by (intro GetLastFullTileIndex_range [of env l ctx w lastTile w1]) simp
    then have small: "lastTile < 2 ^ 62" by simp
    let ?fetch = "GetTileEntries env l ctx"
    have first: "GetTileIndexFromTime env l ctx startTime 0 lastTile w1 =
        Some (spec_search ?fetch startTime 0 lastTile w1)"
      using small by (intro GetTileIndexFromTime_spec_search) simp_all
    obtain r2 w2 where s2: "spec_search ?fetch startTime 0 lastTile w1 = (r2, w2)"
      by (cases "spec_search ?fetch startTime 0 lastTile w1")
    show ?thesis
    proof (cases r2)
      case (Inl err)
      with True last Inr first s2 show ?thesis by (simp add: GetBoundingTilesFromTimes_def)
    next
      case start: (Inr startIndex)
      with s2 have b1: "0 \<le> startIndex \<and> startIndex \<le> lastTile"
        by (intro spec_search_bounds [of ?fetch startTime 0 lastTile w1 startIndex w2]) simp
      have second: "GetTileIndexFromTime env l ctx endTime startIndex lastTile w2 =
          Some (spec_search ?fetch endTime startIndex lastTile w2)"
        using small b1 by (intro GetTileIndexFromTime_spec_search) simp_all
      obtain r3 w3 where s3: "spec_search ?fetch endTime startIndex lastTile w2 = (r3, w3)"
        by (cases "spec_search ?fetch endTime startIndex lastTile w2")
      show ?thesis
      proof (cases r3)
        case (Inl err)
        with True last Inr first s2 start second s3 show ?thesis
          by (simp add: GetBoundingTilesFromTimes_def)
      next
        case last_found: (Inr endIndex)
        with s3 have b2: "startIndex \<le> endIndex \<and> endIndex \<le> lastTile"
          by (intro spec_search_bounds [of ?fetch endTime startIndex lastTile w2 endIndex w3]) simp
        with True last Inr first s2 start second s3 last_found b1 show ?thesis
          by (auto simp: GetBoundingTilesFromTimes_def Before_def)
      qed
    qed
  qed
qed

theorem GetBoundingTilesFromTimes_monotone_witness:
  "GetBoundingTilesFromTimes (example_env example_pages None) example_log 0
      (UnixMilli 97) (UnixMilli 99) 0 = Some (Inr (0, 2), 5) \<and>
   UnixMilli 97 < UnixMilli 99 \<and> (0::int) \<le> 0 \<and> (0::int) \<le> 2"
proof -
  have nc: "\<not> example_cancelled None (Suc (Suc (Suc (Suc 0))))"
    by (simp add: example_cancelled_def)
  have e: "GetBoundingTilesFromTimes (example_env example_pages None) example_log 0
      (UnixMilli 97) (UnixMilli 99) 0 = Some (Inr (0, 2), 5)"
    using example_bounds [OF nc, of 0] by (simp add: eval_nat_numeral)
  show ?thesis
    using GetBoundingTilesFromTimes_monotone
      [of "example_env example_pages None" example_log 0 "UnixMilli 97" "UnixMilli 99" 0 0 2 5]
    by (simp add: e)
qed


section \<open>C7: the search for the tile of an instant\<close>





section \<open>C8: which retry policies are rejected\<close>

text \<open>
  C8. \<^verbatim>\<open>Retry.Validate\<close> returns an error if and only if \<open>MaxAttempts < 1\<close>, or
  \<open>MaxInterval \<le> 0\<close>, or \<open>Timeout \<le> 0\<close>, or \<open>Timeout \<le> MaxInterval\<close>; a policy with
  none of these is accepted (the result is \<^verbatim>\<open>nil\<close>).
\<close>

theorem Validate_rejects_iff:
  "(Validate r \<noteq> None) =
     (MaxAttempts r < 1 \<or> MaxInterval r \<le> 0 \<or> Timeout r \<le> 0 \<or> Timeout r \<le> MaxInterval r)"
  by (simp add: Validate_def)

theorem Validate_rejects_iff_witness:
  "Validate \<lparr>MaxAttempts = 3, MaxInterval = 2, Timeout = 7\<rparr> = None
   \<and> Validate \<lparr>MaxAttempts = 0, MaxInterval = 2, Timeout = 7\<rparr> \<noteq> None
   \<and> Validate \<lparr>MaxAttempts = 3, MaxInterval = 0, Timeout = 7\<rparr> \<noteq> None
   \<and> Validate \<lparr>MaxAttempts = 3, MaxInterval = -4, Timeout = 0\<rparr> \<noteq> None
   \<and> Validate \<lparr>MaxAttempts = 3, MaxInterval = 7, Timeout = 7\<rparr> \<noteq> None"
  using Validate_rejects_iff [of "\<lparr>MaxAttempts = 3, MaxInterval = 2, Timeout = 7\<rparr>"]
    Validate_rejects_iff [of "\<lparr>MaxAttempts = 0, MaxInterval = 2, Timeout = 7\<rparr>"]
    Validate_rejects_iff [of "\<lparr>MaxAttempts = 3, MaxInterval = 0, Timeout = 7\<rparr>"]
    Validate_rejects_iff [of "\<lparr>MaxAttempts = 3, MaxInterval = -4, Timeout = 0\<rparr>"]
    Validate_rejects_iff [of "\<lparr>MaxAttempts = 3, MaxInterval = 7, Timeout = 7\<rparr>"]
  by simp

section \<open>C9: the retry policy in force\<close>




section \<open>C10: the leaves of a tile\<close>

text \<open>
  C10. When the tile body was fetched, \<^verbatim>\<open>GetTileEntries\<close> returns the entries
  \<open>entries\<close> if and only if they are the first 256 leaf records of the body: the
  bytes after the 256th record are arbitrary and do not make the call fail. A result has
  256 entries.
\<close>

theorem GetTileEntries_first_256_leaves:
  assumes "fetch_tile_data env l ctx tileIndex w = (Inr tileData, w')"
  shows "(GetTileEntries env l ctx tileIndex w = (Inr entries, w') \<longleftrightarrow>
      (\<exists>trailing. take_leaves (ReadTileLeaf env) 256 tileData = Some (entries, trailing))) \<and>
    (if isl (fst (GetTileEntries env l ctx tileIndex w)) then True
     else length (projr (fst (GetTileEntries env l ctx tileIndex w))) = 256)"
proof -
  have g: "GetTileEntries env l ctx tileIndex w = (read_entries (ReadTileLeaf env) 256 tileData, w')"
    using assms by (simp add: GetTileEntries_def)
  have "length (projr (read_entries (ReadTileLeaf env) 256 tileData)) = 256"
    if "\<not> isl (read_entries (ReadTileLeaf env) 256 tileData)"
    using that read_entries_length [of "ReadTileLeaf env" 256 tileData]
    by (cases "read_entries (ReadTileLeaf env) 256 tileData") auto
  then show ?thesis
    by (simp add: g read_entries_take_leaves)
qed

theorem GetTileEntries_first_256_leaves_witness:
  "fetch_tile_data (example_env example_pages None) example_log 0 0 0 =
     (Inr (example_tile (CHR ''a'') @ ''trailing''), 1) \<and>
   take_leaves example_leaf 256 (example_tile (CHR ''a'') @ ''trailing'') =
     Some (replicate 256 (example_entry (CHR ''a'')), ''trailing'') \<and>
   GetTileEntries (example_env example_pages None) example_log 0 0 0 =
     (Inr (replicate 256 (example_entry (CHR ''a''))), 1)"
proof -
  have nc: "\<not> example_cancelled None 0" by (simp add: example_cancelled_def)
  have f: "fetch_tile_data (example_env example_pages None) example_log 0 0 0 =
     (Inr (example_tile (CHR ''a'') @ ''trailing''), 1)"
    by (simp add: example_fetch_tile_data [OF nc] example_paths example_pages_def)
  have rd: "ReadTileLeaf (example_env example_pages None) = example_leaf"
    by (simp add: example_env_def)
  have t: "take_leaves example_leaf 256 (example_tile (CHR ''a'') @ ''trailing'') =
     Some (replicate 256 (example_entry (CHR ''a'')), ''trailing'')"
    unfolding example_tile_def by (rule take_leaves_example)
  from GetTileEntries_first_256_leaves [OF f, of "replicate 256 (example_entry (CHR ''a''))"]
  have "GetTileEntries (example_env example_pages None) example_log 0 0 0 =
     (Inr (replicate 256 (example_entry (CHR ''a''))), 1)"
    unfolding rd t by blast
  with f t show ?thesis by simp
qed


end
